theory Spec2Isabelle
  imports Complex_Main
begin

section \<open>JavaScript numbers\<close>

text \<open>
  A JavaScript \<^verbatim>\<open>number\<close> is modelled as a real number extended with the two
  infinities and NaN. Arithmetic on finite numbers is exact: rounding, overflow to an
  infinity and the sign of zero are not modelled. A zero divisor is read as \<^verbatim>\<open>+0\<close>,
  which is what the zero divisors of the layout code are: \<^verbatim>\<open>rings.length - 1\<close> for a
  single ring and the number of sub-slices when there are none. NaN propagates through every operation and
  makes every comparison false, as in IEEE 754.
\<close>

datatype jsnum = Fin real | PInf | NInf | NaN

fun js_neg :: "jsnum \<Rightarrow> jsnum" where
  "js_neg (Fin a) = Fin (- a)"
| "js_neg PInf = NInf"
| "js_neg NInf = PInf"
| "js_neg NaN = NaN"

fun js_add :: "jsnum \<Rightarrow> jsnum \<Rightarrow> jsnum" where
  "js_add (Fin a) (Fin b) = Fin (a + b)"
| "js_add NaN _ = NaN"
| "js_add _ NaN = NaN"
| "js_add PInf NInf = NaN"
| "js_add NInf PInf = NaN"
| "js_add PInf _ = PInf"
| "js_add _ PInf = PInf"
| "js_add NInf _ = NInf"
| "js_add _ NInf = NInf"

fun js_sign_inf :: "bool \<Rightarrow> jsnum" where
  "js_sign_inf positive = (if positive then PInf else NInf)"

fun js_mul :: "jsnum \<Rightarrow> jsnum \<Rightarrow> jsnum" where
  "js_mul (Fin a) (Fin b) = Fin (a * b)"
| "js_mul NaN _ = NaN"
| "js_mul _ NaN = NaN"
| "js_mul (Fin a) PInf = (if a = 0 then NaN else js_sign_inf (0 < a))"
| "js_mul (Fin a) NInf = (if a = 0 then NaN else js_sign_inf (a < 0))"
| "js_mul PInf (Fin b) = (if b = 0 then NaN else js_sign_inf (0 < b))"
| "js_mul NInf (Fin b) = (if b = 0 then NaN else js_sign_inf (b < 0))"
| "js_mul PInf PInf = PInf"
| "js_mul NInf NInf = PInf"
| "js_mul PInf NInf = NInf"
| "js_mul NInf PInf = NInf"

fun js_div :: "jsnum \<Rightarrow> jsnum \<Rightarrow> jsnum" where
  "js_div (Fin a) (Fin b) =
     (if b = 0 then (if a = 0 then NaN else js_sign_inf (0 < a)) else Fin (a / b))"
| "js_div NaN _ = NaN"
| "js_div _ NaN = NaN"
| "js_div (Fin a) PInf = Fin 0"
| "js_div (Fin a) NInf = Fin 0"
| "js_div PInf (Fin b) = js_sign_inf (0 \<le> b)"
| "js_div NInf (Fin b) = js_sign_inf (b < 0)"
| "js_div PInf PInf = NaN"
| "js_div PInf NInf = NaN"
| "js_div NInf PInf = NaN"
| "js_div NInf NInf = NaN"

fun js_less :: "jsnum \<Rightarrow> jsnum \<Rightarrow> bool" where
  "js_less (Fin a) (Fin b) = (a < b)"
| "js_less NaN _ = False"
| "js_less _ NaN = False"
| "js_less NInf NInf = False"
| "js_less NInf _ = True"
| "js_less PInf _ = False"
| "js_less (Fin a) PInf = True"
| "js_less (Fin a) NInf = False"

instantiation jsnum :: "{plus, minus, times, inverse, ord}"
begin

definition plus_jsnum :: "jsnum \<Rightarrow> jsnum \<Rightarrow> jsnum" where
  "plus_jsnum a b = js_add a b"

definition minus_jsnum :: "jsnum \<Rightarrow> jsnum \<Rightarrow> jsnum" where
  "minus_jsnum a b = js_add a (js_neg b)"

definition times_jsnum :: "jsnum \<Rightarrow> jsnum \<Rightarrow> jsnum" where
  "times_jsnum a b = js_mul a b"

definition divide_jsnum :: "jsnum \<Rightarrow> jsnum \<Rightarrow> jsnum" where
  "divide_jsnum a b = js_div a b"

definition inverse_jsnum :: "jsnum \<Rightarrow> jsnum" where
  "inverse_jsnum a = js_div (Fin 1) a"

definition less_jsnum :: "jsnum \<Rightarrow> jsnum \<Rightarrow> bool" where
  "less_jsnum a b = js_less a b"

definition less_eq_jsnum :: "jsnum \<Rightarrow> jsnum \<Rightarrow> bool" where
  "less_eq_jsnum a b = (js_less a b \<or> (a = b \<and> a \<noteq> NaN))"

instance ..

end

text \<open>Truthiness of a number: \<^verbatim>\<open>0\<close> and NaN are falsy.\<close>

fun truthy :: "jsnum \<Rightarrow> bool" where
  "truthy (Fin a) = (a \<noteq> 0)"
| "truthy NaN = False"
| "truthy _ = True"

text \<open>An optional number is \<^verbatim>\<open>undefined\<close> when absent; in arithmetic \<^verbatim>\<open>undefined\<close> is NaN.\<close>

fun num_of :: "jsnum option \<Rightarrow> jsnum" where
  "num_of None = NaN"
| "num_of (Some a) = a"

fun js_sin :: "jsnum \<Rightarrow> jsnum" where
  "js_sin (Fin a) = Fin (sin a)"
| "js_sin _ = NaN"

fun js_cos :: "jsnum \<Rightarrow> jsnum" where
  "js_cos (Fin a) = Fin (cos a)"
| "js_cos _ = NaN"

section \<open>Errors\<close>

text \<open>
  The two \<^verbatim>\<open>throw new Error(...)\<close> of the anchor classifier carry the offending
  angle; \<^verbatim>\<open>TypeError\<close> is what the runtime raises when a property of \<^verbatim>\<open>undefined\<close> is
  read or written.
\<close>

datatype error = InvalidRadsHorizontal jsnum | InvalidRadsVertical jsnum | TypeError

section \<open>Label anchor classifier\<close>

text \<open>
  Modelled from the spec: \<^verbatim>\<open>degToRad\<close> of \<^verbatim>\<open>geometricUtils\<close> is not among the
  sources; it converts degrees to radians.
\<close>

definition degToRad :: "jsnum \<Rightarrow> jsnum" where
  "degToRad d = d * Fin pi / Fin 180"

datatype hAnchor = H_middle | H_start | H_end

datatype vAnchor = V_baseline | V_hanging | V_middle

record TextPlacement =
  hAnchor :: hAnchor
  vAnchor :: vAnchor

definition H_CUT_OFF_DEGREE :: jsnum where
  "H_CUT_OFF_DEGREE = Fin 10"

definition V_CUT_OFF_DEGREE :: jsnum where
  "V_CUT_OFF_DEGREE = Fin 45"

text \<open>\<^verbatim>\<open>!endAngle\<close>: the second argument is ignored when it is absent, zero or NaN.\<close>

definition anchor_rads :: "jsnum \<Rightarrow> jsnum option \<Rightarrow> jsnum" where
  "anchor_rads startOrMidAngle endAngle =
     (case endAngle of
        None \<Rightarrow> startOrMidAngle
      | Some e \<Rightarrow> if \<not> truthy e then startOrMidAngle
                  else (e - startOrMidAngle) / Fin 2 + startOrMidAngle)"

definition anchor_h :: "jsnum \<Rightarrow> error + hAnchor" where
  "anchor_h rads =
     (if rads > degToRad (Fin 360 - H_CUT_OFF_DEGREE) \<or> rads < degToRad H_CUT_OFF_DEGREE
        then Inr H_middle
      else if rads > degToRad (Fin 180 - H_CUT_OFF_DEGREE) \<and> rads < degToRad (Fin 180 + H_CUT_OFF_DEGREE)
        then Inr H_middle
      else if rads \<ge> degToRad H_CUT_OFF_DEGREE \<and> rads \<le> degToRad (Fin 180 - H_CUT_OFF_DEGREE)
        then Inr H_start
      else if rads \<ge> degToRad (Fin 180 + H_CUT_OFF_DEGREE) \<and> rads \<le> degToRad (Fin 360 - H_CUT_OFF_DEGREE)
        then Inr H_end
      else Inl (InvalidRadsHorizontal rads))"

definition anchor_v :: "jsnum \<Rightarrow> error + vAnchor" where
  "anchor_v rads =
     (if rads > degToRad (Fin 360 - V_CUT_OFF_DEGREE) \<or> rads < degToRad V_CUT_OFF_DEGREE
        then Inr V_baseline
      else if rads > degToRad (Fin 180 - V_CUT_OFF_DEGREE) \<and> rads < degToRad (Fin 180 + V_CUT_OFF_DEGREE)
        then Inr V_hanging
      else if rads \<ge> degToRad V_CUT_OFF_DEGREE \<and> rads \<le> degToRad (Fin 180 - V_CUT_OFF_DEGREE)
        then Inr V_middle
      else if rads \<ge> degToRad (Fin 180 + V_CUT_OFF_DEGREE) \<and> rads \<le> degToRad (Fin 360 - V_CUT_OFF_DEGREE)
        then Inr V_middle
      else Inl (InvalidRadsVertical rads))"

definition calculateAnchorPlacement :: "jsnum \<Rightarrow> jsnum option \<Rightarrow> error + TextPlacement" where
  "calculateAnchorPlacement startOrMidAngle endAngle =
     (let rads = anchor_rads startOrMidAngle endAngle in
      case anchor_h rads of
        Inl e \<Rightarrow> Inl e
      | Inr h \<Rightarrow>
          (case anchor_v rads of
             Inl e \<Rightarrow> Inl e
           | Inr v \<Rightarrow> Inr \<lparr>hAnchor = h, vAnchor = v\<rparr>))"

section \<open>Configuration and content tree\<close>

text \<open>
  \<^verbatim>\<open>RadarPieConfig\<close> after \<^verbatim>\<open>nestedAssign\<close> has merged the caller's partial configuration
  over the defaults. The item marker is not read by the layout and is left out.
\<close>

record RadarPieConfig =
  outerRadius :: jsnum
  innerRadius :: jsnum
  minSubSliceAngle :: jsnum
  subSlicePadAngle :: jsnum
  sliceDividerOutFlowLength :: jsnum
  sliceLabelDistance :: jsnum
  subSliceLabelDistance :: jsnum
  sliceLabelPadding :: jsnum
  subSliceLabelPadding :: jsnum
  minRingRadius :: jsnum
  ringPadding :: jsnum
  ringMinOpacity :: jsnum
  ringMaxOpacity :: jsnum

definition DEFAULT_RADAR_PIE_CONFIG :: RadarPieConfig where
  "DEFAULT_RADAR_PIE_CONFIG =
     \<lparr>outerRadius = Fin 250, innerRadius = Fin 0,
      minSubSliceAngle = Fin 12, subSlicePadAngle = Fin (2 / 10),
      sliceDividerOutFlowLength = Fin 0,
      sliceLabelDistance = Fin 60, subSliceLabelDistance = Fin 10,
      sliceLabelPadding = Fin 4, subSliceLabelPadding = Fin 2,
      minRingRadius = Fin 30, ringPadding = Fin 0,
      ringMinOpacity = Fin (2 / 10), ringMaxOpacity = Fin 1\<rparr>"

text \<open>
  \<^verbatim>\<open>d3.DefaultArcObject\<close>. The arcs of sub-slices also carry \<^verbatim>\<open>data\<close>, \<^verbatim>\<open>index\<close> and
  \<^verbatim>\<open>value\<close> from the pie generator; the layout reads \<^verbatim>\<open>data\<close> only to locate the
  sub-slice, so the arc is paired with its datum instead.
\<close>

record ArcObject =
  startAngle :: jsnum
  endAngle :: jsnum
  padAngle :: jsnum
  arc_innerRadius :: jsnum
  arc_outerRadius :: jsnum

record RadarItem =
  item_groupId :: string
  item_x :: "jsnum option"
  item_y :: "jsnum option"

record Segment =
  seg_ringId :: string
  seg_ringLevel :: nat
  seg_items :: "RadarItem list"
  seg_arcParams :: "ArcObject option"

record LabelData =
  lbl_x :: jsnum
  lbl_y :: jsnum
  bBoxPadding :: jsnum
  labelPlacement :: TextPlacement

record DividerLine =
  x1 :: jsnum
  y1 :: jsnum
  x2 :: jsnum
  y2 :: jsnum

record SliceLabelData = LabelData +
  midAngle :: jsnum
  dividerLine :: DividerLine

record SubSlice =
  ss_id :: string
  ss_label :: string
  isDummy :: bool
  ss_arcParams :: "ArcObject option"
  ss_labelData :: "LabelData option"
  segments :: "Segment list"

record Slice =
  slice_id :: string
  slice_label :: string
  slice_labelData :: "SliceLabelData option"
  subSlices :: "SubSlice list"

record CatInfoSubSlice =
  cat_id :: string
  cat_sliceId :: string
  cat_itemCount :: jsnum

record RingInfo =
  ring_id :: string
  ring_itemCount :: jsnum
  opacity :: "jsnum option"
  ring_innerRadius :: "jsnum option"
  ring_radius :: "jsnum option"

text \<open>
  \<^verbatim>\<open>RadarContent\<close>: the slice tree, the flat list of sub-slice categories and the
  rings. The groups and the flat item list are not read by the layout.
\<close>

record RadarContent =
  slices :: "Slice list"
  flat_subSlices :: "CatInfoSubSlice list"
  rings :: "RingInfo list"

section \<open>Helpers of the runtime and of d3\<close>

text \<open>\<^verbatim>\<open>xs[i]\<close> is \<^verbatim>\<open>undefined\<close> outside the array.\<close>

definition nth_opt :: "'a list \<Rightarrow> nat \<Rightarrow> 'a option" where
  "nth_opt xs i = (if i < length xs then Some (xs ! i) else None)"

text \<open>
  A loop body writes into the object it is given and may throw: its result is the
  object as the body leaves it and the exception, if one was thrown. A body that
  writes nothing before it can throw is \<open>atomic\<close>.
\<close>

definition atomic :: "('a \<Rightarrow> error + 'a) \<Rightarrow> 'a \<Rightarrow> 'a \<times> error option" where
  "atomic f x = (case f x of Inl e \<Rightarrow> (x, Some e) | Inr y \<Rightarrow> (y, None))"

text \<open>
  \<^verbatim>\<open>xs.forEach(body)\<close>: the first exception ends the loop; what was written until
  then stays written.
\<close>

fun forEach :: "('a \<Rightarrow> 'a \<times> error option) \<Rightarrow> 'a list \<Rightarrow> 'a list \<times> error option" where
  "forEach f [] = ([], None)"
| "forEach f (x # xs) =
     (case f x of
        (y, Some e) \<Rightarrow> (y # xs, Some e)
      | (y, None) \<Rightarrow> (case forEach f xs of (ys, r) \<Rightarrow> (y # ys, r)))"

text \<open>A \<^verbatim>\<open>forEach\<close> over data whose body writes into one shared structure.\<close>

fun foldM :: "('s \<Rightarrow> 'a \<Rightarrow> 's \<times> error option) \<Rightarrow> 's \<Rightarrow> 'a list \<Rightarrow> 's \<times> error option" where
  "foldM f s [] = (s, None)"
| "foldM f s (x # xs) =
     (case f s x of
        (s', Some e) \<Rightarrow> (s', Some e)
      | (s', None) \<Rightarrow> foldM f s' xs)"

text \<open>
  \<^verbatim>\<open>xs.find(P)\<close> followed by writes into the object found; when nothing is found the
  access to \<^verbatim>\<open>undefined\<close> raises and nothing is written.
\<close>

fun update_first ::
  "('a \<Rightarrow> bool) \<Rightarrow> ('a \<Rightarrow> 'a \<times> error option) \<Rightarrow> 'a list \<Rightarrow> 'a list \<times> error option" where
  "update_first P f [] = ([], Some TypeError)"
| "update_first P f (x # xs) =
     (if P x then (case f x of (y, r) \<Rightarrow> (y # xs, r))
      else (case update_first P f xs of (ys, r) \<Rightarrow> (x # ys, r)))"

text \<open>
  \<^verbatim>\<open>d3.sum(values, accessor)\<close> of d3-array: starting from 0 it adds every accessor
  value that is truthy, so zeros and NaN are skipped.
\<close>

definition d3_sum :: "jsnum list \<Rightarrow> jsnum" where
  "d3_sum vs = foldl (\<lambda>s v. if truthy v then s + v else s) (Fin 0) vs"

text \<open>\<^verbatim>\<open>Math.min\<close> is NaN when an argument is NaN.\<close>

definition js_min :: "jsnum \<Rightarrow> jsnum \<Rightarrow> jsnum" where
  "js_min a b = (if a = NaN \<or> b = NaN then NaN else if b < a then b else a)"

text \<open>
  The pie generator of d3-shape (\<^verbatim>\<open>d3.pie()\<close>), a dependency of the repository, as the
  constructor configures it. With \<^verbatim>\<open>sort(null)\<close> the data order is kept. The start
  and end angle keep their defaults \<^verbatim>\<open>0\<close> and \<^verbatim>\<open>2\<pi>\<close>, so the generator's \<^verbatim>\<open>da\<close>
  is \<^verbatim>\<open>2\<pi>\<close> and its \<^verbatim>\<open>pa = p * (da < 0 ? -1 : 1)\<close> is \<^verbatim>\<open>p\<close>. The generator computes
  \<^verbatim>\<open>p = Math.min(Math.abs(da) / n, padAngle)\<close>, adds up the values \<^verbatim>\<open>v > 0\<close> into
  \<^verbatim>\<open>sum\<close>, sets \<^verbatim>\<open>k = sum ? (da - n * pa) / sum : 0\<close> and then, datum by datum,
  \<^verbatim>\<open>a1 = a0 + (v > 0 ? v * k : 0) + pa\<close> with the arc
  \<^verbatim>\<open>{startAngle: a0, endAngle: a1, padAngle: p}\<close>, the next \<^verbatim>\<open>a0\<close> being \<^verbatim>\<open>a1\<close>.
  Each result is (startAngle, endAngle, padAngle).
\<close>

fun pie_arcs :: "jsnum \<Rightarrow> jsnum \<Rightarrow> jsnum \<Rightarrow> jsnum list \<Rightarrow> (jsnum \<times> jsnum \<times> jsnum) list" where
  "pie_arcs k p a0 [] = []"
| "pie_arcs k p a0 (v # vs) =
     (let a1 = a0 + (if v > Fin 0 then v * k else Fin 0) + p
      in (a0, a1, p) # pie_arcs k p a1 vs)"

definition pie_sum :: "jsnum list \<Rightarrow> jsnum" where
  "pie_sum vs = foldl (\<lambda>s v. if v > Fin 0 then s + v else s) (Fin 0) vs"

definition d3_pie :: "jsnum list \<Rightarrow> jsnum \<Rightarrow> (jsnum \<times> jsnum \<times> jsnum) list" where
  "d3_pie vs padAngleCfg =
     (let n = Fin (real (length vs));
          da = Fin (2 * pi);
          p = js_min (da / n) padAngleCfg;
          sum = pie_sum vs;
          k = (if truthy sum then (da - n * p) / sum else Fin 0)
      in pie_arcs k p (Fin 0) vs)"

section \<open>Proportional scaler\<close>

text \<open>
  Modelled from the spec: \<^verbatim>\<open>scaleProportional\<close> of \<^verbatim>\<open>utils\<close> is not among the sources.
  The spec gives it as an iterative fixed point over non-negative weights: an item
  whose proportional share \<open>w / sum(w) * total\<close> is below the floor is clamped to
  the floor and leaves the weighted pool, the budget shrinks by the floor for each
  clamped item, and the shares of the rest are recomputed, until no further item
  falls below the floor or all items are clamped; when the floor times the number
  of items exceeds the total, every item receives the floor. An item is a weight
  with the flag "clamped". A pool whose weights sum to zero gives every item in it
  the share zero.
\<close>

definition pool_weight :: "(real \<times> bool) list \<Rightarrow> real" where
  "pool_weight xs = sum_list (map fst (filter (\<lambda>x. \<not> snd x) xs))"

definition clamped_count :: "(real \<times> bool) list \<Rightarrow> nat" where
  "clamped_count xs = length (filter snd xs)"

definition share :: "real \<Rightarrow> real \<Rightarrow> (real \<times> bool) list \<Rightarrow> real \<Rightarrow> real" where
  "share tot m xs w =
     (if pool_weight xs = 0 then 0
      else w / pool_weight xs * (tot - m * real (clamped_count xs)))"

definition clamp_pass :: "real \<Rightarrow> real \<Rightarrow> (real \<times> bool) list \<Rightarrow> (real \<times> bool) list" where
  "clamp_pass tot m xs = map (\<lambda>x. (fst x, snd x \<or> share tot m xs (fst x) < m)) xs"

function scale_iter :: "real \<Rightarrow> real \<Rightarrow> (real \<times> bool) list \<Rightarrow> real list" where
  "scale_iter tot m xs =
     (if clamp_pass tot m xs = xs
      then map (\<lambda>x. if snd x then m else share tot m xs (fst x)) xs
      else scale_iter tot m (clamp_pass tot m xs))"
  by pat_completeness auto
termination
proof (relation "measure (\<lambda>(tot, m, xs). length (filter (\<lambda>x. \<not> snd x) xs))")
  show "wf (measure (\<lambda>(tot, m, xs). length (filter (\<lambda>x. \<not> snd x) xs)))"
    by simp
next
  fix tot m :: real and xs :: "(real \<times> bool) list"
  assume changed: "clamp_pass tot m xs \<noteq> xs"
  have decreases:
    "map (\<lambda>x. (fst x, snd x \<or> Q x)) ys \<noteq> ys \<Longrightarrow>
     length (filter (\<lambda>x. \<not> snd x) (map (\<lambda>x. (fst x, snd x \<or> Q x)) ys))
       < length (filter (\<lambda>x. \<not> snd x) ys)"
    for Q :: "real \<times> bool \<Rightarrow> bool" and ys
  proof (induction ys)
    case Nil
    then show ?case by simp
  next
    case (Cons y ys)
    have le: "length (filter (\<lambda>x. \<not> snd x) (map (\<lambda>x. (fst x, snd x \<or> Q x)) ys))
                \<le> length (filter (\<lambda>x. \<not> snd x) ys)"
      by (induction ys) auto
    show ?case
    proof (cases "map (\<lambda>x. (fst x, snd x \<or> Q x)) ys = ys")
      case True
      with Cons.prems have "(fst y, snd y \<or> Q y) \<noteq> y" by simp
      then have "\<not> snd y \<and> Q y" by (cases y) auto
      with True show ?thesis by simp
    next
      case False
      from Cons.IH [OF False] le show ?thesis by auto
    qed
  qed
  show "((tot, m, clamp_pass tot m xs), (tot, m, xs))
      \<in> measure (\<lambda>(tot, m, xs). length (filter (\<lambda>x. \<not> snd x) xs))"
    using changed decreases [of "\<lambda>x. share tot m xs (fst x) < m" xs]
    unfolding clamp_pass_def by simp
qed

declare scale_iter.simps [simp del]

definition scaleProportional_real :: "real list \<Rightarrow> real \<Rightarrow> real \<Rightarrow> real list" where
  "scaleProportional_real ws tot m =
     (if m * real (length ws) > tot then map (\<lambda>w. m) ws
      else scale_iter tot m (map (\<lambda>w. (w, False)) ws))"

fun is_fin :: "jsnum \<Rightarrow> bool" where
  "is_fin (Fin a) = True"
| "is_fin _ = False"

fun the_fin :: "jsnum \<Rightarrow> real" where
  "the_fin (Fin a) = a"
| "the_fin _ = 0"

text \<open>
  The spec speaks of finite weights, tot and floor only; for an argument that is
  not finite the model returns NaN for every item.
\<close>

definition scaleProportional :: "jsnum list \<Rightarrow> jsnum \<Rightarrow> jsnum \<Rightarrow> jsnum list" where
  "scaleProportional ws tot m =
     (if list_all is_fin ws \<and> is_fin tot \<and> is_fin m
      then map Fin (scaleProportional_real (map the_fin ws) (the_fin tot) (the_fin m))
      else map (\<lambda>w. NaN) ws)"

section \<open>Ring layout\<close>

definition availableRadius :: "RadarPieConfig \<Rightarrow> nat \<Rightarrow> jsnum" where
  "availableRadius cfg n =
     outerRadius cfg - innerRadius cfg - ringPadding cfg * Fin (real n - 1)"

definition ring_weights :: "RingInfo list \<Rightarrow> jsnum list" where
  "ring_weights rs =
     map (\<lambda>(r, level). ring_itemCount r * Fin ((real (length rs) - real level)\<^sup>2) * Fin pi)
         (zip rs [0..<length rs])"

text \<open>
  One iteration of \<^verbatim>\<open>rings.forEach((ring, ringLevel) => ...)\<close>. The sum for
  \<^verbatim>\<open>innerRadius\<close> reads the \<^verbatim>\<open>radius\<close> fields of the rings as they are at that moment;
  the ring's own \<^verbatim>\<open>radius\<close> is written last.
\<close>

definition ring_step :: "RadarPieConfig \<Rightarrow> jsnum list \<Rightarrow> RingInfo list \<Rightarrow> nat \<Rightarrow> RingInfo list" where
  "ring_step cfg scaledRadiuses rs ringLevel =
     rs[ringLevel := (rs ! ringLevel)
        \<lparr>opacity := Some
           (((ringMaxOpacity cfg - ringMinOpacity cfg)
               * Fin (real (length rs) - real ringLevel - 1))
              / Fin (real (length rs) - 1)
            + ringMinOpacity cfg),
         ring_innerRadius := Some
           (innerRadius cfg
            + d3_sum (map (\<lambda>(r, idx). if idx < ringLevel
                                        then num_of (ring_radius r) + ringPadding cfg
                                        else Fin 0)
                          (zip rs [0..<length rs]))),
         ring_radius := nth_opt scaledRadiuses ringLevel\<rparr>]"

text \<open>
  The ring pass of the constructor. \<^verbatim>\<open>scaleProportional\<close> of \<^verbatim>\<open>utils\<close> is not among
  the sources and is the parameter \<open>sp\<close>.
\<close>

definition layout_rings ::
  "(jsnum list \<Rightarrow> jsnum \<Rightarrow> jsnum \<Rightarrow> jsnum list) \<Rightarrow> RadarPieConfig \<Rightarrow> RingInfo list \<Rightarrow> RingInfo list" where
  "layout_rings sp cfg rs =
     (let scaledRadiuses = sp (ring_weights rs) (availableRadius cfg (length rs)) (minRingRadius cfg)
      in foldl (ring_step cfg scaledRadiuses) rs [0..<length rs])"

text \<open>
  The list \<^verbatim>\<open>d3.sum\<close> adds up at level \<open>L\<close> once the radii of the levels below \<open>L\<close>
  have been written from the scaled radii.
\<close>

definition ring_sum_arg :: "RadarPieConfig \<Rightarrow> jsnum list \<Rightarrow> nat \<Rightarrow> nat \<Rightarrow> jsnum list" where
  "ring_sum_arg cfg scaledRadiuses n L =
     map (\<lambda>idx. if idx < L then num_of (nth_opt scaledRadiuses idx) + ringPadding cfg else Fin 0)
         [0..<n]"

section \<open>Sub-slice arcs, sub-slice labels and segment arcs\<close>

definition subSlice_labelData :: "RadarPieConfig \<Rightarrow> ArcObject \<Rightarrow> error + LabelData" where
  "subSlice_labelData cfg arcParams =
     (case calculateAnchorPlacement (startAngle arcParams) (Some (endAngle arcParams)) of
        Inl e \<Rightarrow> Inl e
      | Inr placement \<Rightarrow> Inr
          \<lparr>lbl_x = (arc_outerRadius arcParams + subSliceLabelDistance cfg)
                   * js_sin ((endAngle arcParams - startAngle arcParams) / Fin 2 + startAngle arcParams),
           lbl_y = Fin (- 1) * (arc_outerRadius arcParams + subSliceLabelDistance cfg)
                   * js_cos ((endAngle arcParams - startAngle arcParams) / Fin 2 + startAngle arcParams),
           bBoxPadding = subSliceLabelPadding cfg,
           labelPlacement = placement\<rparr>)"

text \<open>
  The body of \<^verbatim>\<open>subSlice.segments.forEach\<close>. The ring's thickness is looked up by
  \<^verbatim>\<open>ringId\<close> with \<^verbatim>\<open>find\<close>, its inner radius by \<^verbatim>\<open>ringLevel\<close> as an index; a missing
  ring raises on the property access. After the ring pass every ring has both
  fields; one that is absent is read as NaN.
\<close>

definition segment_arcParams :: "RingInfo list \<Rightarrow> ArcObject \<Rightarrow> Segment \<Rightarrow> error + Segment" where
  "segment_arcParams rs subArc seg =
     (case find (\<lambda>r. ring_id r = seg_ringId seg) rs of
        None \<Rightarrow> Inl TypeError
      | Some r \<Rightarrow>
          (let ringRadius = num_of (ring_radius r) in
           case nth_opt rs (seg_ringLevel seg) of
             None \<Rightarrow> Inl TypeError
           | Some r' \<Rightarrow>
               (let ringInnerRadius = num_of (ring_innerRadius r') in
                Inr (seg\<lparr>seg_arcParams := Some
                  \<lparr>startAngle = startAngle subArc,
                   endAngle = endAngle subArc,
                   padAngle = padAngle subArc,
                   arc_innerRadius = ringInnerRadius,
                   arc_outerRadius = ringInnerRadius + ringRadius\<rparr>\<rparr>))))"

text \<open>
  What the body of \<^verbatim>\<open>subSliceArcs.forEach\<close> does to the sub-slice it has located:
  it writes \<^verbatim>\<open>arcParams\<close>, then \<^verbatim>\<open>labelData\<close>, whose classification may throw, then
  the \<^verbatim>\<open>arcParams\<close> of the segments one by one.
\<close>

definition place_subSlice ::
  "RadarPieConfig \<Rightarrow> RingInfo list \<Rightarrow> ArcObject \<Rightarrow> SubSlice \<Rightarrow> SubSlice \<times> error option" where
  "place_subSlice cfg rs arc subSlice =
     (case subSlice_labelData cfg arc of
        Inl e \<Rightarrow> (subSlice\<lparr>ss_arcParams := Some arc\<rparr>, Some e)
      | Inr ld \<Rightarrow>
          (case forEach (atomic (segment_arcParams rs arc)) (segments subSlice) of
             (segs, r) \<Rightarrow> (subSlice\<lparr>ss_arcParams := Some arc,
                                      ss_labelData := Some ld,
                                      segments := segs\<rparr>, r)))"

text \<open>
  One iteration of \<^verbatim>\<open>subSliceArcs.forEach\<close>: the first slice whose id is the datum's
  \<^verbatim>\<open>sliceId\<close>, in it the first sub-slice whose id is the datum's \<^verbatim>\<open>id\<close>.
\<close>

definition arc_step ::
  "RadarPieConfig \<Rightarrow> RingInfo list \<Rightarrow> Slice list \<Rightarrow> CatInfoSubSlice \<times> ArcObject
     \<Rightarrow> Slice list \<times> error option" where
  "arc_step cfg rs sls da =
     (case da of (d, arc) \<Rightarrow>
        update_first (\<lambda>slice. cat_sliceId d = slice_id slice)
          (\<lambda>slice. case update_first (\<lambda>subSlice. ss_id subSlice = cat_id d)
                           (place_subSlice cfg rs arc) (subSlices slice) of
                      (sss, r) \<Rightarrow> (slice\<lparr>subSlices := sss\<rparr>, r))
          sls)"

text \<open>
  The arcs of the flat sub-slice list: \<^verbatim>\<open>scaleProportional\<close> over the item counts with
  total 360 and floor \<^verbatim>\<open>minSubSliceAngle\<close>, then the pie generator, whose value
  accessor is \<^verbatim>\<open>scaledSubSlices[idx]\<close>, then the two radii of the configuration.
\<close>

definition subSlice_arcs ::
  "(jsnum list \<Rightarrow> jsnum \<Rightarrow> jsnum \<Rightarrow> jsnum list) \<Rightarrow> RadarPieConfig \<Rightarrow> CatInfoSubSlice list \<Rightarrow> ArcObject list" where
  "subSlice_arcs sp cfg flat =
     (let scaledSubSlices = sp (map cat_itemCount flat) (Fin 360) (minSubSliceAngle cfg);
          vs = map (\<lambda>idx. num_of (nth_opt scaledSubSlices idx)) [0..<length flat]
      in map (\<lambda>(a0, a1, p).
                \<lparr>startAngle = a0, endAngle = a1, padAngle = p,
                 arc_innerRadius = innerRadius cfg, arc_outerRadius = outerRadius cfg\<rparr>)
             (d3_pie vs (degToRad (subSlicePadAngle cfg))))"

section \<open>Slice labels and separator lines\<close>

definition slice_labelData_of :: "RadarPieConfig \<Rightarrow> ArcObject \<Rightarrow> ArcObject \<Rightarrow> error + SliceLabelData" where
  "slice_labelData_of cfg firstArcParams lastArcParams =
     (let midAngle = startAngle firstArcParams
                     + (endAngle lastArcParams - startAngle firstArcParams) / Fin 2
      in case calculateAnchorPlacement midAngle None of
           Inl e \<Rightarrow> Inl e
         | Inr placement \<Rightarrow> Inr
             \<lparr>lbl_x = js_cos (midAngle - Fin pi / Fin 2)
                      * (arc_outerRadius firstArcParams + sliceLabelDistance cfg),
              lbl_y = js_sin (midAngle - Fin pi / Fin 2)
                      * (arc_outerRadius firstArcParams + sliceLabelDistance cfg),
              bBoxPadding = sliceLabelPadding cfg,
              labelPlacement = placement,
              midAngle = midAngle,
              dividerLine =
                \<lparr>x1 = js_cos (startAngle firstArcParams - Fin pi / Fin 2) * arc_innerRadius firstArcParams,
                 y1 = js_sin (startAngle firstArcParams - Fin pi / Fin 2) * arc_innerRadius firstArcParams,
                 x2 = js_cos (startAngle firstArcParams - Fin pi / Fin 2)
                      * (arc_outerRadius firstArcParams + sliceDividerOutFlowLength cfg),
                 y2 = js_sin (startAngle firstArcParams - Fin pi / Fin 2)
                      * (arc_outerRadius firstArcParams + sliceDividerOutFlowLength cfg)\<rparr>\<rparr>)"

text \<open>
  The body of \<^verbatim>\<open>slices.forEach\<close>. A slice without sub-slices, or whose first or last
  sub-slice has no \<^verbatim>\<open>arcParams\<close>, raises on the property access.
\<close>

definition slice_step :: "RadarPieConfig \<Rightarrow> Slice \<Rightarrow> error + Slice" where
  "slice_step cfg slice =
     (case subSlices slice of
        [] \<Rightarrow> Inl TypeError
      | first # rest \<Rightarrow>
          (case ss_arcParams first of
             None \<Rightarrow> Inl TypeError
           | Some firstArcParams \<Rightarrow>
               (case ss_arcParams (last (subSlices slice)) of
                  None \<Rightarrow> Inl TypeError
                | Some lastArcParams \<Rightarrow>
                    (case slice_labelData_of cfg firstArcParams lastArcParams of
                       Inl e \<Rightarrow> Inl e
                     | Inr ld \<Rightarrow> Inr (slice\<lparr>slice_labelData := Some ld\<rparr>)))))"

section \<open>The RadarPie constructor\<close>

text \<open>
  The layout passes of the constructor, in their order, on the content tree. The
  result is the tree as the constructor leaves it, also when it throws, and the
  exception if one was thrown. The constructor first merges the caller's partial
  configuration over the defaults with \<^verbatim>\<open>nestedAssign\<close> and builds an \<^verbatim>\<open>ItemMarker\<close>
  from the groups; both are not among the sources, \<open>cfg\<close> is the merged
  configuration and the item marker is left out.
\<close>

definition RadarPie_layout ::
  "(jsnum list \<Rightarrow> jsnum \<Rightarrow> jsnum \<Rightarrow> jsnum list) \<Rightarrow> RadarPieConfig \<Rightarrow> RadarContent
     \<Rightarrow> RadarContent \<times> error option" where
  "RadarPie_layout sp cfg content =
     (let rs = layout_rings sp cfg (rings content);
          subSliceArcs = subSlice_arcs sp cfg (flat_subSlices content)
      in case foldM (arc_step cfg rs) (slices content) (zip (flat_subSlices content) subSliceArcs) of
           (sls, Some e) \<Rightarrow> (content\<lparr>slices := sls, rings := rs\<rparr>, Some e)
         | (sls, None) \<Rightarrow>
             (case forEach (atomic (slice_step cfg)) sls of
                (sls', r) \<Rightarrow> (content\<lparr>slices := sls', rings := rs\<rparr>, r)))"

text \<open>
  Objects live in a store and are passed by reference. The content tree is kept as
  one value at the reference the caller holds, and an object inside the tree is
  named by its position in the tree. The constructor assigns
  \<^verbatim>\<open>this.radarContent = radarContentInput\<close>, the reference and not a copy, and every
  annotation is written through it. The result is the store after the constructor
  and either the exception or the new object.
\<close>

type_synonym ref = nat

type_synonym store = "ref \<Rightarrow> RadarContent option"

record RadarPie =
  radarContent :: ref
  config :: RadarPieConfig

definition RadarPie_constructor ::
  "(jsnum list \<Rightarrow> jsnum \<Rightarrow> jsnum \<Rightarrow> jsnum list) \<Rightarrow> store \<Rightarrow> ref \<Rightarrow> RadarPieConfig
     \<Rightarrow> store \<times> (error + RadarPie)" where
  "RadarPie_constructor sp st radarContentInput cfg =
     (case st radarContentInput of
        None \<Rightarrow> (st, Inl TypeError)
      | Some content \<Rightarrow>
          (case RadarPie_layout sp cfg content of
             (content', Some e) \<Rightarrow> (st(radarContentInput \<mapsto> content'), Inl e)
           | (content', None) \<Rightarrow>
               (st(radarContentInput \<mapsto> content'),
                Inr \<lparr>radarContent = radarContentInput, config = cfg\<rparr>)))"

text \<open>
  The sub-slice the arc pass locates for a datum of the flat list, and what the
  pass has written when it has placed a sub-slice with an arc: the arc, the label
  data of the arc, and in every segment the arc parameters the segment body
  computes from the arc and the rings.
\<close>

definition locate :: "Slice list \<Rightarrow> CatInfoSubSlice \<Rightarrow> SubSlice option" where
  "locate sls d =
     (case find (\<lambda>slice. cat_sliceId d = slice_id slice) sls of
        None \<Rightarrow> None
      | Some slice \<Rightarrow> find (\<lambda>subSlice. ss_id subSlice = cat_id d) (subSlices slice))"

definition placed :: "RadarPieConfig \<Rightarrow> RingInfo list \<Rightarrow> ArcObject \<Rightarrow> SubSlice \<Rightarrow> bool" where
  "placed cfg rs arc subSlice =
     (ss_arcParams subSlice = Some arc
      \<and> (case subSlice_labelData cfg arc of
            Inl e \<Rightarrow> False
          | Inr ld \<Rightarrow> ss_labelData subSlice = Some ld)
      \<and> list_all (\<lambda>seg. segment_arcParams rs arc seg = Inr seg) (segments subSlice))"

section \<open>The RadarSegment constructor\<close>

type_synonym point = "jsnum \<times> jsnum"

text \<open>
  The arc generator of d3-shape (\<^verbatim>\<open>d3.arc()\<close>: path string and centroid) and the two
  helpers of \<^verbatim>\<open>geometricUtils\<close>, which are not among the sources, are parameters.
\<close>

record geometry =
  arcGenerator :: "ArcObject \<Rightarrow> string"
  arcGenerator_centroid :: "ArcObject \<Rightarrow> point"
  flattenSVGPath :: "string \<Rightarrow> point list"
  distributePointsWithinBoundary :: "point list \<Rightarrow> nat \<Rightarrow> point list"

definition SYMBOL_BOUND_RADIUS :: jsnum where
  "SYMBOL_BOUND_RADIUS = Fin 6"

definition PADDING_ANGLE :: jsnum where
  "PADDING_ANGLE = (Fin 2 * Fin pi) / Fin 180"

definition PAD_INNER_RADIUS :: jsnum where
  "PAD_INNER_RADIUS = SYMBOL_BOUND_RADIUS"

definition PAD_OUTER_RADIUS :: jsnum where
  "PAD_OUTER_RADIUS = js_neg SYMBOL_BOUND_RADIUS"

definition getItemBoundaryArc :: "geometry \<Rightarrow> ArcObject \<Rightarrow> jsnum \<Rightarrow> jsnum \<Rightarrow> jsnum \<Rightarrow> point list" where
  "getItemBoundaryArc g arcParams paddingAngle padInnerRadius padOuterRadius =
     (let paddedArcParams = arcParams
            \<lparr>padAngle := padAngle arcParams + paddingAngle,
             arc_innerRadius := arc_innerRadius arcParams + padInnerRadius,
             arc_outerRadius := arc_outerRadius arcParams + padOuterRadius\<rparr>;
          containingArcPathString = arcGenerator g paddedArcParams
      in flattenSVGPath g containingArcPathString)"

text \<open>
  \<^verbatim>\<open>points.forEach((p, idx) => { items[idx].x = p[0]; items[idx].y = p[1] })\<close>: a
  point beyond the last item raises.
\<close>

fun assign_points :: "point list \<Rightarrow> RadarItem list \<Rightarrow> error + RadarItem list" where
  "assign_points [] its = Inr its"
| "assign_points (p # ps) [] = Inl TypeError"
| "assign_points (p # ps) (it # its) =
     (case assign_points ps its of
        Inl e \<Rightarrow> Inl e
      | Inr its' \<Rightarrow> Inr (it\<lparr>item_x := Some (fst p), item_y := Some (snd p)\<rparr> # its'))"

record RadarSegment =
  segment :: Segment
  rs_opacity :: "jsnum option"
  arcPathString :: string
  arcCentroid :: point
  itemBoundaryPolygonPoints :: "point list"

text \<open>
  \<^verbatim>\<open>this.segment\<close> is the caller's segment, so the positions are written into the
  caller's items; the field \<open>segment\<close> of the result is that segment after the
  constructor. A ring level outside \<^verbatim>\<open>rings\<close> and a segment without \<^verbatim>\<open>arcParams\<close>
  raise on the property access.
\<close>

definition RadarSegment_constructor :: "geometry \<Rightarrow> Segment \<Rightarrow> RingInfo list \<Rightarrow> error + RadarSegment" where
  "RadarSegment_constructor g seg rs =
     (case nth_opt rs (seg_ringLevel seg) of
        None \<Rightarrow> Inl TypeError
      | Some ring \<Rightarrow>
          (case seg_arcParams seg of
             None \<Rightarrow> Inl TypeError
           | Some arcParams \<Rightarrow>
               (let centroid = arcGenerator_centroid g arcParams;
                    poly = getItemBoundaryArc g arcParams PADDING_ANGLE PAD_INNER_RADIUS PAD_OUTER_RADIUS;
                    result = (if length (seg_items seg) = 1
                       then Inr [(hd (seg_items seg))\<lparr>item_x := Some (fst centroid),
                                                      item_y := Some (snd centroid)\<rparr>]
                       else if length (seg_items seg) > 0
                       then assign_points
                              (distributePointsWithinBoundary g poly (length (seg_items seg)))
                              (seg_items seg)
                       else Inr (seg_items seg))
                in case result of
                     Inl e \<Rightarrow> Inl e
                   | Inr its \<Rightarrow> Inr
                       \<lparr>segment = seg\<lparr>seg_items := its\<rparr>,
                        rs_opacity = opacity ring,
                        arcPathString = arcGenerator g arcParams,
                        arcCentroid = centroid,
                        itemBoundaryPolygonPoints = poly\<rparr>)))"

text \<open>
  \<^verbatim>\<open>getElement\<close> builds a \<^verbatim>\<open>RadarSegment\<close> for every segment of the tree with
  \<^verbatim>\<open>new RadarSegment(segment, this.radarContent.rings)\<close>. The segment is the object
  at \<^verbatim>\<open>slices[i].subSlices[j].segments[k]\<close> of the tree and the constructor writes
  the positions into its items. The only exception after a write is the one of a
  point beyond the last item, raised when every item has its position.
\<close>

type_synonym seg_path = "nat \<times> nat \<times> nat"

definition segment_at :: "RadarContent \<Rightarrow> seg_path \<Rightarrow> Segment option" where
  "segment_at content p =
     (case p of (i, j, k) \<Rightarrow>
        (case nth_opt (slices content) i of
           None \<Rightarrow> None
         | Some slice \<Rightarrow>
             (case nth_opt (subSlices slice) j of
                None \<Rightarrow> None
              | Some subSlice \<Rightarrow> nth_opt (segments subSlice) k)))"

definition put_segment :: "RadarContent \<Rightarrow> seg_path \<Rightarrow> Segment \<Rightarrow> RadarContent" where
  "put_segment content p seg =
     (case p of (i, j, k) \<Rightarrow>
        content\<lparr>slices := (slices content)
          [i := (slices content ! i)\<lparr>subSlices := (subSlices (slices content ! i))
            [j := (subSlices (slices content ! i) ! j)
               \<lparr>segments := (segments (subSlices (slices content ! i) ! j))[k := seg]\<rparr>]\<rparr>]\<rparr>)"

fun write_points :: "point list \<Rightarrow> RadarItem list \<Rightarrow> RadarItem list" where
  "write_points [] its = its"
| "write_points (p # ps) [] = []"
| "write_points (p # ps) (it # its) =
     it\<lparr>item_x := Some (fst p), item_y := Some (snd p)\<rparr> # write_points ps its"

text \<open>The caller's segment after the constructor has returned or thrown.\<close>

definition segment_after :: "geometry \<Rightarrow> Segment \<Rightarrow> RingInfo list \<Rightarrow> Segment" where
  "segment_after g seg rs =
     (case RadarSegment_constructor g seg rs of
        Inr r \<Rightarrow> segment r
      | Inl e \<Rightarrow>
          (case (nth_opt rs (seg_ringLevel seg), seg_arcParams seg) of
             (Some ring, Some arcParams) \<Rightarrow>
               seg\<lparr>seg_items := write_points
                 (distributePointsWithinBoundary g
                    (getItemBoundaryArc g arcParams PADDING_ANGLE PAD_INNER_RADIUS PAD_OUTER_RADIUS)
                    (length (seg_items seg)))
                 (seg_items seg)\<rparr>
           | _ \<Rightarrow> seg))"

definition getElement_RadarSegment ::
  "geometry \<Rightarrow> store \<Rightarrow> RadarPie \<Rightarrow> seg_path \<Rightarrow> store \<times> (error + RadarSegment)" where
  "getElement_RadarSegment g st pie p =
     (case st (radarContent pie) of
        None \<Rightarrow> (st, Inl TypeError)
      | Some content \<Rightarrow>
          (case segment_at content p of
             None \<Rightarrow> (st, Inl TypeError)
           | Some seg \<Rightarrow>
               (st(radarContent pie \<mapsto> put_segment content p (segment_after g seg (rings content))),
                RadarSegment_constructor g seg (rings content))))"

section \<open>The content tree without its annotations\<close>

text \<open>
  The fields the layout computes are \<^verbatim>\<open>arcParams\<close> and \<^verbatim>\<open>labelData\<close> in the slice tree
  and \<^verbatim>\<open>opacity\<close>, \<^verbatim>\<open>innerRadius\<close> and \<^verbatim>\<open>radius\<close> of the rings. Erasing them leaves what
  the data source supplied.
\<close>

definition erase_segment :: "Segment \<Rightarrow> Segment" where
  "erase_segment seg = seg\<lparr>seg_arcParams := None\<rparr>"

definition erase_subSlice :: "SubSlice \<Rightarrow> SubSlice" where
  "erase_subSlice subSlice =
     subSlice\<lparr>ss_arcParams := None, ss_labelData := None,
              segments := map erase_segment (segments subSlice)\<rparr>"

definition erase_slice :: "Slice \<Rightarrow> Slice" where
  "erase_slice slice =
     slice\<lparr>slice_labelData := None, subSlices := map erase_subSlice (subSlices slice)\<rparr>"

definition erase_ring :: "RingInfo \<Rightarrow> RingInfo" where
  "erase_ring r = r\<lparr>opacity := None, ring_innerRadius := None, ring_radius := None\<rparr>"

definition erase_content :: "RadarContent \<Rightarrow> RadarContent" where
  "erase_content content =
     content\<lparr>slices := map erase_slice (slices content),
             rings := map erase_ring (rings content)\<rparr>"

section \<open>Example inputs\<close>

definition rings2 :: "RingInfo list" where
  "rings2 =
     [\<lparr>ring_id = ''adopt'', ring_itemCount = Fin 3, opacity = None,
       ring_innerRadius = None, ring_radius = None\<rparr>,
      \<lparr>ring_id = ''hold'', ring_itemCount = Fin 1, opacity = None,
       ring_innerRadius = None, ring_radius = None\<rparr>]"

text \<open>Three rings with the item counts 10, 5 and 2.\<close>

definition rings3 :: "RingInfo list" where
  "rings3 =
     [\<lparr>ring_id = ''adopt'', ring_itemCount = Fin 10, opacity = None,
       ring_innerRadius = None, ring_radius = None\<rparr>,
      \<lparr>ring_id = ''trial'', ring_itemCount = Fin 5, opacity = None,
       ring_innerRadius = None, ring_radius = None\<rparr>,
      \<lparr>ring_id = ''hold'', ring_itemCount = Fin 2, opacity = None,
       ring_innerRadius = None, ring_radius = None\<rparr>]"

text \<open>Two rings after the ring pass, a quarter-circle arc, and a sub-slice with one segment in the outer ring.\<close>

definition rings_laid :: "RingInfo list" where
  "rings_laid =
     [\<lparr>ring_id = ''adopt'', ring_itemCount = Fin 3, opacity = Some (Fin 1),
       ring_innerRadius = Some (Fin 0), ring_radius = Some (Fin 180)\<rparr>,
      \<lparr>ring_id = ''hold'', ring_itemCount = Fin 1, opacity = Some (Fin (2 / 10)),
       ring_innerRadius = Some (Fin 180), ring_radius = Some (Fin 70)\<rparr>]"

definition quarter_arc :: ArcObject where
  "quarter_arc =
     \<lparr>startAngle = Fin 0, endAngle = Fin (pi / 2), padAngle = Fin 0,
      arc_innerRadius = Fin 0, arc_outerRadius = Fin 250\<rparr>"

definition hold_segment :: Segment where
  "hold_segment =
     \<lparr>seg_ringId = ''hold'', seg_ringLevel = 1,
      seg_items = [\<lparr>item_groupId = ''g'', item_x = None, item_y = None\<rparr>],
      seg_arcParams = None\<rparr>"

definition tools_subSlice :: SubSlice where
  "tools_subSlice =
     \<lparr>ss_id = ''tools'', ss_label = ''Tools'', isDummy = False,
      ss_arcParams = None, ss_labelData = None, segments = [hold_segment]\<rparr>"

text \<open>
  A geometry for the examples: the centroid of the arc generator of d3-shape, the
  point at the mean radius and the mean angle, and trivial paths and polygons.
\<close>

definition example_geometry :: geometry where
  "example_geometry =
     \<lparr>arcGenerator = (\<lambda>a. ''''),
      arcGenerator_centroid = (\<lambda>a.
        (js_cos ((startAngle a + endAngle a) / Fin 2 - Fin pi / Fin 2)
           * ((arc_innerRadius a + arc_outerRadius a) / Fin 2),
         js_sin ((startAngle a + endAngle a) / Fin 2 - Fin pi / Fin 2)
           * ((arc_innerRadius a + arc_outerRadius a) / Fin 2))),
      flattenSVGPath = (\<lambda>p. []),
      distributePointsWithinBoundary = (\<lambda>poly n. [])\<rparr>"

text \<open>A flat list with a single sub-slice of four items.\<close>

definition one_flat :: "CatInfoSubSlice list" where
  "one_flat = [\<lparr>cat_id = ''tools'', cat_sliceId = ''s'', cat_itemCount = Fin 4\<rparr>]"

text \<open>A flat list with two sub-slices of four and one items.\<close>

definition two_flat :: "CatInfoSubSlice list" where
  "two_flat =
     [\<lparr>cat_id = ''tools'', cat_sliceId = ''s'', cat_itemCount = Fin 4\<rparr>,
      \<lparr>cat_id = ''platforms'', cat_sliceId = ''s'', cat_itemCount = Fin 1\<rparr>]"

text \<open>A content tree with one slice, one sub-slice and two rings, held at reference 7.\<close>

definition example_content :: RadarContent where
  "example_content =
     \<lparr>slices = [\<lparr>slice_id = ''s'', slice_label = ''S'', slice_labelData = None,
                 subSlices = [tools_subSlice]\<rparr>],
      flat_subSlices = one_flat,
      rings = rings2\<rparr>"

definition example_store :: store where
  "example_store = Map.empty(7 \<mapsto> example_content)"



text \<open>The object the constructor returns for the example tree.\<close>

definition example_pie :: RadarPie where
  "example_pie = \<lparr>radarContent = 7, config = DEFAULT_RADAR_PIE_CONFIG\<rparr>"

text \<open>
  The example tree after the constructor: the rings with opacity and radii, the
  sub-slice on the full circle, its segment in the outer ring, and the labels.
\<close>

definition rings2_built :: "RingInfo list" where
  "rings2_built =
     [\<lparr>ring_id = ''adopt'', ring_itemCount = Fin 3, opacity = Some (Fin 1),
       ring_innerRadius = Some (Fin 0), ring_radius = Some (Fin 220)\<rparr>,
      \<lparr>ring_id = ''hold'', ring_itemCount = Fin 1, opacity = Some (Fin (2 / 10)),
       ring_innerRadius = Some (Fin 220), ring_radius = Some (Fin 30)\<rparr>]"

definition full_arc :: ArcObject where
  "full_arc =
     \<lparr>startAngle = Fin 0, endAngle = Fin (2 * pi), padAngle = Fin (pi / 900),
      arc_innerRadius = Fin 0, arc_outerRadius = Fin 250\<rparr>"

definition built_segment :: Segment where
  "built_segment =
     hold_segment\<lparr>seg_arcParams := Some
       \<lparr>startAngle = Fin 0, endAngle = Fin (2 * pi), padAngle = Fin (pi / 900),
        arc_innerRadius = Fin 220, arc_outerRadius = Fin 250\<rparr>\<rparr>"

definition built_subSlice :: SubSlice where
  "built_subSlice =
     tools_subSlice
       \<lparr>ss_arcParams := Some full_arc,
        ss_labelData := Some
          \<lparr>lbl_x = Fin 0, lbl_y = Fin 260, bBoxPadding = Fin 2,
           labelPlacement = \<lparr>hAnchor = H_middle, vAnchor = V_hanging\<rparr>\<rparr>,
        segments := [built_segment]\<rparr>"

definition built_content :: RadarContent where
  "built_content =
     \<lparr>slices = [\<lparr>slice_id = ''s'', slice_label = ''S'',
                 slice_labelData = Some
                   \<lparr>lbl_x = Fin 0, lbl_y = Fin 310, bBoxPadding = Fin 4,
                    labelPlacement = \<lparr>hAnchor = H_middle, vAnchor = V_hanging\<rparr>,
                    midAngle = Fin pi,
                    dividerLine = \<lparr>x1 = Fin 0, y1 = Fin 0, x2 = Fin 0, y2 = Fin (- 250)\<rparr>\<rparr>,
                 subSlices = [built_subSlice]\<rparr>],
      flat_subSlices = one_flat,
      rings = rings2_built\<rparr>"

text \<open>The example tree after the item of its segment has been positioned.\<close>

definition drawn_segment :: Segment where
  "drawn_segment =
     built_segment\<lparr>seg_items :=
       [\<lparr>item_groupId = ''g'', item_x = Some (Fin 0), item_y = Some (Fin 235)\<rparr>]\<rparr>"

definition drawn_content :: RadarContent where
  "drawn_content =
     built_content\<lparr>slices :=
       [(hd (slices built_content))\<lparr>subSlices := [built_subSlice\<lparr>segments := [drawn_segment]\<rparr>]\<rparr>]\<rparr>"

section \<open>Arithmetic on finite numbers\<close>

lemma fin_arith [simp]:
  "Fin a + Fin b = Fin (a + b)"
  "Fin a - Fin b = Fin (a - b)"
  "Fin a * Fin b = Fin (a * b)"
  "b \<noteq> 0 \<Longrightarrow> Fin a / Fin b = Fin (a / b)"
  "(Fin a < Fin b) = (a < b)"
  "(Fin a \<le> Fin b) = (a \<le> b)"
  by (auto simp: plus_jsnum_def minus_jsnum_def times_jsnum_def divide_jsnum_def less_jsnum_def less_eq_jsnum_def)

lemma length_ring_step [simp]: "length (ring_step cfg sc rs L) = length rs"
  by (simp add: ring_step_def)

lemma length_foldl_ring_step [simp]: "length (foldl (ring_step cfg sc) rs ls) = length rs"
  by (induction ls arbitrary: rs) simp_all

lemma length_layout_rings [simp]: "length (layout_rings sp cfg rs) = length rs"
  by (simp add: layout_rings_def Let_def)

lemma d3_sum_Fin_aux: "foldl (\<lambda>s v. if truthy v then s + v else s) (Fin a) (map Fin xs) = Fin (a + sum_list xs)"
  by (induction xs arbitrary: a) (simp_all add: add.assoc)

lemma d3_sum_Fin: "d3_sum (map Fin xs) = Fin (sum_list xs)"
  by (simp add: d3_sum_def d3_sum_Fin_aux)


lemma ring_step_nth:
  "m < length rs \<Longrightarrow> L < length rs \<Longrightarrow>
   ring_step cfg sc rs m ! L =
     (if L = m then (rs ! m)
        \<lparr>opacity := Some
           (((ringMaxOpacity cfg - ringMinOpacity cfg)
               * Fin (real (length rs) - real m - 1))
              / Fin (real (length rs) - 1)
            + ringMinOpacity cfg),
         ring_innerRadius := Some
           (innerRadius cfg
            + d3_sum (map (\<lambda>(r, idx). if idx < m
                                        then num_of (ring_radius r) + ringPadding cfg
                                        else Fin 0)
                          (zip rs [0..<length rs]))),
         ring_radius := nth_opt sc m\<rparr>
      else rs ! L)"
  by (simp add: ring_step_def)

lemma foldl_ring_step_nth:
  assumes "m \<le> length rs"
  shows "(\<forall>L<m. foldl (ring_step cfg sc) rs [0..<m] ! L = (rs ! L)
        \<lparr>opacity := Some
           (((ringMaxOpacity cfg - ringMinOpacity cfg)
               * Fin (real (length rs) - real L - 1))
              / Fin (real (length rs) - 1)
            + ringMinOpacity cfg),
         ring_innerRadius := Some (innerRadius cfg + d3_sum (ring_sum_arg cfg sc (length rs) L)),
         ring_radius := nth_opt sc L\<rparr>)
       \<and> (\<forall>L. m \<le> L \<longrightarrow> L < length rs \<longrightarrow> foldl (ring_step cfg sc) rs [0..<m] ! L = rs ! L)"
  using assms
proof (induction m)
  case 0
  then show ?case by simp
next
  case (Suc m)
  define st where "st = foldl (ring_step cfg sc) rs [0..<m]"
  have len: "length st = length rs" by (simp add: st_def)
  have m: "m < length rs" using Suc.prems by simp
  from Suc have IH1: "\<And>L. L < m \<Longrightarrow> st ! L = (rs ! L)
        \<lparr>opacity := Some
           (((ringMaxOpacity cfg - ringMinOpacity cfg)
               * Fin (real (length rs) - real L - 1))
              / Fin (real (length rs) - 1)
            + ringMinOpacity cfg),
         ring_innerRadius := Some (innerRadius cfg + d3_sum (ring_sum_arg cfg sc (length rs) L)),
         ring_radius := nth_opt sc L\<rparr>"
    and IHu: "\<And>L. m \<le> L \<Longrightarrow> L < length rs \<Longrightarrow> st ! L = rs ! L" by (auto simp: st_def)
  have fold: "foldl (ring_step cfg sc) rs [0..<Suc m] = ring_step cfg sc st m" by (simp add: st_def)
  have mapeq: "map (\<lambda>(r, idx). if idx < m then num_of (ring_radius r) + ringPadding cfg else Fin 0) (zip st [0..<length st])
      = ring_sum_arg cfg sc (length rs) m"
    unfolding ring_sum_arg_def
    by (rule nth_equalityI) (auto simp: IH1 len)
  have step: "\<And>L. L < length rs \<Longrightarrow> ring_step cfg sc st m ! L = (if L = m then (st ! m)
        \<lparr>opacity := Some
           (((ringMaxOpacity cfg - ringMinOpacity cfg)
               * Fin (real (length rs) - real m - 1))
              / Fin (real (length rs) - 1)
            + ringMinOpacity cfg),
         ring_innerRadius := Some (innerRadius cfg + d3_sum (ring_sum_arg cfg sc (length rs) m)),
         ring_radius := nth_opt sc m\<rparr> else st ! L)"
    using ring_step_nth[of m st _ cfg sc] m mapeq by (simp add: len)
  show ?case
    unfolding fold
  proof (intro conjI allI impI)
    fix L assume "L < Suc m"
    then show "ring_step cfg sc st m ! L = (rs ! L)
        \<lparr>opacity := Some
           (((ringMaxOpacity cfg - ringMinOpacity cfg)
               * Fin (real (length rs) - real L - 1))
              / Fin (real (length rs) - 1)
            + ringMinOpacity cfg),
         ring_innerRadius := Some (innerRadius cfg + d3_sum (ring_sum_arg cfg sc (length rs) L)),
         ring_radius := nth_opt sc L\<rparr>"
      using m IH1[of L] IHu[of m] by (cases "L = m") (simp_all add: step)
  next
    fix L assume "Suc m \<le> L" "L < length rs"
    then show "ring_step cfg sc st m ! L = rs ! L"
      using IHu[of L] by (simp add: step)
  qed
qed

lemma layout_rings_nth:
  assumes "L < length rs"
  shows "layout_rings sp cfg rs ! L = (rs ! L)
        \<lparr>opacity := Some
           (((ringMaxOpacity cfg - ringMinOpacity cfg)
               * Fin (real (length rs) - real L - 1))
              / Fin (real (length rs) - 1)
            + ringMinOpacity cfg),
         ring_innerRadius := Some (innerRadius cfg + d3_sum (ring_sum_arg cfg
             (sp (ring_weights rs) (availableRadius cfg (length rs)) (minRingRadius cfg)) (length rs) L)),
         ring_radius := nth_opt (sp (ring_weights rs) (availableRadius cfg (length rs)) (minRingRadius cfg)) L\<rparr>"
  using foldl_ring_step_nth[of "length rs" rs cfg] assms
  by (simp add: layout_rings_def Let_def)

lemma ring_sum_arg_Fin:
  assumes "length s = n" "L \<le> n"
  shows "d3_sum (ring_sum_arg cfg (map Fin s) n L) = (if ringPadding cfg = Fin p then Fin (\<Sum>k<L. s ! k + p) else d3_sum (ring_sum_arg cfg (map Fin s) n L))"
proof (cases "ringPadding cfg = Fin p")
  case True
  have "ring_sum_arg cfg (map Fin s) n L = map Fin (map (\<lambda>idx. if idx < L then s ! idx + p else 0) [0..<n])"
    using assms True by (auto simp: ring_sum_arg_def nth_opt_def)
  then have "d3_sum (ring_sum_arg cfg (map Fin s) n L) = Fin (sum_list (map (\<lambda>idx. if idx < L then s ! idx + p else 0) [0..<n]))"
    by (simp only: d3_sum_Fin)
  moreover have "sum_list (map (\<lambda>idx. if idx < L then s ! idx + p else 0) [0..<n]) = (\<Sum>k<L. s ! k + p)"
  proof -
    have "sum_list (map (\<lambda>idx. if idx < L then s ! idx + p else 0) [0..<n]) = (\<Sum>k\<in>{0..<n}. if k < L then s ! k + p else 0)"
      by (simp add: interv_sum_list_conv_sum_set_nat)
    also have "\<dots> = (\<Sum>k\<in>{0..<n} \<inter> {k. k < L}. s ! k + p)"
      by (simp add: sum.inter_restrict)
    also have "{0..<n} \<inter> {k. k < L} = {..<L}" using assms by auto
    finally show ?thesis .
  qed
  ultimately show ?thesis using True by simp
qed simp

section \<open>Properties of the anchor classifier\<close>

lemma degToRad_Fin: "degToRad (Fin d) = Fin (d * pi / 180)"
  by (simp add: degToRad_def)

lemma deg_less [simp]: "(a * pi / 180 < b * pi / 180) = (a < b)"
  by (simp add: divide_less_cancel)

lemma deg_le [simp]: "(a * pi / 180 \<le> b * pi / 180) = (a \<le> b)"
  by (simp add: divide_le_cancel)

lemma anchor_h_deg:
  "anchor_h (degToRad (Fin a)) =
     Inr (if 350 < a \<or> a < 10 then H_middle
          else if 170 < a \<and> a < 190 then H_middle
          else if a \<le> 170 then H_start else H_end)"
  by (auto simp: anchor_h_def H_CUT_OFF_DEGREE_def degToRad_Fin)

lemma anchor_v_deg:
  "anchor_v (degToRad (Fin a)) =
     Inr (if 315 < a \<or> a < 45 then V_baseline
          else if 135 < a \<and> a < 225 then V_hanging
          else V_middle)"
  by (auto simp: anchor_v_def V_CUT_OFF_DEGREE_def degToRad_Fin)

lemma calculateAnchorPlacement_deg:
  "calculateAnchorPlacement (degToRad (Fin a)) None =
     Inr \<lparr>hAnchor = (if 350 < a \<or> a < 10 then H_middle
                      else if 170 < a \<and> a < 190 then H_middle
                      else if a \<le> 170 then H_start else H_end),
          vAnchor = (if 315 < a \<or> a < 45 then V_baseline
                      else if 135 < a \<and> a < 225 then V_hanging
                      else V_middle)\<rparr>"
  unfolding calculateAnchorPlacement_def anchor_rads_def
  by (simp only: option.case Let_def anchor_h_deg anchor_v_deg sum.case)

text \<open>
  Claim C3. For an angle of \<open>a\<close> degrees with \<open>0 \<le> a < 360\<close>, given in radians as the
  single argument, the classifier returns a placement: horizontally \<open>middle\<close> when
  \<open>a\<close> is less than 10 degrees from the top or strictly between 170 and 190,
  \<open>start\<close> from 10 to 170 and \<open>end\<close> from 190 to 350, bounds included; vertically
  \<open>baseline\<close> less than 45 degrees from the top, \<open>hanging\<close> strictly between 135 and
  225, and \<open>middle\<close> in the two lateral bands. The witness evaluates the four
  angles 0, 90, 180 and 270 degrees.
\<close>

theorem C3_anchor_placement:
  assumes "0 \<le> a" and "a < 360"
  shows "\<exists>p. calculateAnchorPlacement (degToRad (Fin a)) None = Inr p
      \<and> (a < 10 \<or> 350 < a \<or> (170 < a \<and> a < 190) \<longrightarrow> hAnchor p = H_middle)
      \<and> (10 \<le> a \<and> a \<le> 170 \<longrightarrow> hAnchor p = H_start)
      \<and> (190 \<le> a \<and> a \<le> 350 \<longrightarrow> hAnchor p = H_end)
      \<and> (a < 45 \<or> 315 < a \<longrightarrow> vAnchor p = V_baseline)
      \<and> (135 < a \<and> a < 225 \<longrightarrow> vAnchor p = V_hanging)
      \<and> ((45 \<le> a \<and> a \<le> 135) \<or> (225 \<le> a \<and> a \<le> 315) \<longrightarrow> vAnchor p = V_middle)"
  by (simp add: calculateAnchorPlacement_deg)

theorem C3_anchor_placement_witness:
  "calculateAnchorPlacement (degToRad (Fin 0)) None = Inr \<lparr>hAnchor = H_middle, vAnchor = V_baseline\<rparr>
   \<and> calculateAnchorPlacement (degToRad (Fin 90)) None = Inr \<lparr>hAnchor = H_start, vAnchor = V_middle\<rparr>
   \<and> calculateAnchorPlacement (degToRad (Fin 180)) None = Inr \<lparr>hAnchor = H_middle, vAnchor = V_hanging\<rparr>
   \<and> calculateAnchorPlacement (degToRad (Fin 270)) None = Inr \<lparr>hAnchor = H_end, vAnchor = V_middle\<rparr>"
  using C3_anchor_placement [of 0] C3_anchor_placement [of 90]
        C3_anchor_placement [of 180] C3_anchor_placement [of 270]
  by auto

lemma calculateAnchorPlacement_total:
  "rads \<noteq> NaN \<Longrightarrow> \<exists>p. calculateAnchorPlacement rads None = Inr p"
  by (cases rads)
     (auto simp: calculateAnchorPlacement_def anchor_rads_def anchor_h_def anchor_v_def
        H_CUT_OFF_DEGREE_def V_CUT_OFF_DEGREE_def less_jsnum_def less_eq_jsnum_def
        plus_jsnum_def minus_jsnum_def times_jsnum_def divide_jsnum_def degToRad_def Let_def
        split: sum.splits)

lemma calculateAnchorPlacement_NaN:
  "calculateAnchorPlacement NaN None = Inl (InvalidRadsHorizontal NaN)"
  by (simp add: calculateAnchorPlacement_def anchor_rads_def anchor_h_def
        H_CUT_OFF_DEGREE_def less_jsnum_def less_eq_jsnum_def degToRad_def
        plus_jsnum_def minus_jsnum_def times_jsnum_def divide_jsnum_def)

text \<open>
  Claim C4 says that an angle outside the circle raises. The first test of each
  chain, \<^verbatim>\<open>rads > degToRad(350) || rads < degToRad(10)\<close>, has no outer bound, so an
  angle of 400 degrees and one of -30 degrees are classified as the top section and
  returned; by \<open>calculateAnchorPlacement_total\<close> only NaN reaches the \<^verbatim>\<open>throw\<close>.
\<close>

theorem C4_out_of_range_is_classified:
  "calculateAnchorPlacement (degToRad (Fin 400)) None = Inr \<lparr>hAnchor = H_middle, vAnchor = V_baseline\<rparr>
   \<and> calculateAnchorPlacement (degToRad (Fin (- 30))) None = Inr \<lparr>hAnchor = H_middle, vAnchor = V_baseline\<rparr>"
  by (simp add: calculateAnchorPlacement_deg)

text \<open>
  Claim C10. With exactly one ring the opacity is
  \<^verbatim>\<open>((max - min) * 0) / 0 + min\<close>, which is NaN for every configuration.
\<close>

theorem C10_single_ring_opacity_NaN:
  "opacity (layout_rings sp cfg [r] ! 0) = Some NaN"
proof -
  have "((ringMaxOpacity cfg - ringMinOpacity cfg) * Fin 0) / Fin 0 + ringMinOpacity cfg = NaN"
    by (cases "ringMaxOpacity cfg"; cases "ringMinOpacity cfg")
       (simp_all add: plus_jsnum_def minus_jsnum_def times_jsnum_def divide_jsnum_def)
  then show ?thesis
    using layout_rings_nth [of 0 "[r]" sp cfg] by simp
qed

section \<open>Properties of the ring layout\<close>

lemma scaleProportional_Fin:
  "scaleProportional (map Fin ws) (Fin t) (Fin m) = map Fin (scaleProportional_real ws t m)"
proof -
  have "list_all is_fin (map Fin ws)" by (induction ws) simp_all
  moreover have "map the_fin (map Fin ws) = ws" by (induction ws) simp_all
  ultimately show ?thesis by (simp add: scaleProportional_def)
qed

lemma ring_weights_eq:
  "ring_weights rs = map (\<lambda>l. ring_itemCount (rs ! l) * Fin ((real (length rs) - real l)\<^sup>2) * Fin pi) [0..<length rs]"
  unfolding ring_weights_def by (rule nth_equalityI) simp_all

text \<open>
  Claim C7. With at least two rings and finite opacity bounds, the opacity the ring
  pass writes at level \<open>L\<close> is \<open>min + (max - min) * (n - 1 - L) / (n - 1)\<close>: \<open>max\<close>
  at level 0, \<open>min\<close> at the outermost level, and, when \<open>min \<le> max\<close>, not larger at
  a higher level than at a lower one.
\<close>

theorem C7_ring_opacity:
  assumes "2 \<le> length rs" and "L < length rs"
    and "ringMaxOpacity cfg = Fin mx" and "ringMinOpacity cfg = Fin mn"
  shows "opacity (layout_rings sp cfg rs ! L)
           = Some (Fin (mn + (mx - mn) * (real (length rs) - 1 - real L) / (real (length rs) - 1)))
       \<and> opacity (layout_rings sp cfg rs ! 0) = Some (Fin mx)
       \<and> opacity (layout_rings sp cfg rs ! (length rs - 1)) = Some (Fin mn)
       \<and> (mn \<le> mx \<longrightarrow> (\<forall>L'. L \<le> L' \<and> L' < length rs \<longrightarrow>
             num_of (opacity (layout_rings sp cfg rs ! L')) \<le> num_of (opacity (layout_rings sp cfg rs ! L))))"
proof -
  have n1: "real (length rs) - 1 \<noteq> 0" "0 < real (length rs) - 1" using assms(1) by auto
  have op: "opacity (layout_rings sp cfg rs ! K)
           = Some (Fin (mn + (mx - mn) * (real (length rs) - 1 - real K) / (real (length rs) - 1)))"
    if "K < length rs" for K
    using layout_rings_nth [OF that, of sp cfg] assms(3,4) n1(1)
    by (simp add: algebra_simps)
  have pos: "0 < length rs" using assms(1) by (cases rs) simp_all
  have a: "opacity (layout_rings sp cfg rs ! 0) = Some (Fin mx)"
    using op [OF pos] n1 by simp
  have b: "opacity (layout_rings sp cfg rs ! (length rs - 1)) = Some (Fin mn)"
    using op [of "length rs - 1"] assms(1) by (simp add: of_nat_diff)
  have c: "num_of (opacity (layout_rings sp cfg rs ! L')) \<le> num_of (opacity (layout_rings sp cfg rs ! L))"
    if "mn \<le> mx" "L \<le> L'" "L' < length rs" for L'
  proof -
    have "(mx - mn) * (real (length rs) - 1 - real L') \<le> (mx - mn) * (real (length rs) - 1 - real L)"
      using that by (intro mult_left_mono) auto
    then have "(mx - mn) * (real (length rs) - 1 - real L') / (real (length rs) - 1)
             \<le> (mx - mn) * (real (length rs) - 1 - real L) / (real (length rs) - 1)"
      using n1(2) by (simp add: divide_right_mono)
    then show ?thesis using op [OF that(3)] op [OF assms(2)] by simp
  qed
  show ?thesis using op [OF assms(2)] a b c by blast
qed

theorem C7_ring_opacity_witness:
  "opacity (layout_rings scaleProportional DEFAULT_RADAR_PIE_CONFIG rings2 ! 0) = Some (Fin 1)
   \<and> opacity (layout_rings scaleProportional DEFAULT_RADAR_PIE_CONFIG rings2 ! 1) = Some (Fin (2 / 10))
   \<and> num_of (opacity (layout_rings scaleProportional DEFAULT_RADAR_PIE_CONFIG rings2 ! 1))
       \<le> num_of (opacity (layout_rings scaleProportional DEFAULT_RADAR_PIE_CONFIG rings2 ! 0))"
  using C7_ring_opacity [of rings2 0 DEFAULT_RADAR_PIE_CONFIG 1 "2 / 10" scaleProportional]
  by (simp add: rings2_def DEFAULT_RADAR_PIE_CONFIG_def)

text \<open>
  Claim C6. When the scaler, applied to the weights \<open>c[l] * (n - l)\<^sup>2 * \<pi>\<close>, the
  budget \<open>outerRadius - innerRadius - ringPadding * (n - 1)\<close> and the floor
  \<open>minRingRadius\<close>, returns one finite radius per ring, the ring pass writes that
  radius at each level, and the inner radius at level \<open>L\<close> is the configured
  inner radius plus the sum of radius plus padding over the levels below \<open>L\<close>.
  The witness is the scenario of three rings with counts 10, 5 and 2 under the
  default configuration, whose scaled radii are 180, 40 and 30.
\<close>

theorem C6_ring_radii:
  assumes "sp (map (\<lambda>l. ring_itemCount (rs ! l) * Fin ((real (length rs) - real l)\<^sup>2) * Fin pi) [0..<length rs])
              (outerRadius cfg - innerRadius cfg - ringPadding cfg * Fin (real (length rs) - 1))
              (minRingRadius cfg) = map Fin s"
    and "length s = length rs"
    and "innerRadius cfg = Fin ri" and "ringPadding cfg = Fin p"
    and "L < length rs"
  shows "ring_radius (layout_rings sp cfg rs ! L) = Some (Fin (s ! L))
       \<and> ring_innerRadius (layout_rings sp cfg rs ! L) = Some (Fin (ri + (\<Sum>k<L. s ! k + p)))"
proof -
  have sc: "sp (ring_weights rs) (availableRadius cfg (length rs)) (minRingRadius cfg) = map Fin s"
    using assms(1) by (simp add: ring_weights_eq availableRadius_def)
  have "d3_sum (ring_sum_arg cfg (map Fin s) (length rs) L) = Fin (\<Sum>k<L. s ! k + p)"
    using ring_sum_arg_Fin [of s "length rs" L cfg p] assms by simp
  then show ?thesis
    using layout_rings_nth [OF assms(5), of sp cfg] assms(2,3,5)
    by (simp add: sc nth_opt_def)
qed

lemma upt3: "[0..<3] = [0, 1, 2]" by (simp add: upt_rec)

lemma rings3_scaled:
  "scaleProportional
     (map (\<lambda>l. ring_itemCount (rings3 ! l) * Fin ((real (length rings3) - real l)\<^sup>2) * Fin pi) [0..<length rings3])
     (outerRadius DEFAULT_RADAR_PIE_CONFIG - innerRadius DEFAULT_RADAR_PIE_CONFIG
        - ringPadding DEFAULT_RADAR_PIE_CONFIG * Fin (real (length rings3) - 1))
     (minRingRadius DEFAULT_RADAR_PIE_CONFIG) = map Fin [180, 40, 30]"
proof -
  have "map (\<lambda>l. ring_itemCount (rings3 ! l) * Fin ((real (length rings3) - real l)\<^sup>2) * Fin pi) [0..<length rings3]
      = map Fin [90 * pi, 20 * pi, 2 * pi]"
    by (simp add: rings3_def upt3)
  moreover have "scaleProportional_real [90 * pi, 20 * pi, 2 * pi] 250 30 = [180, 40, 30]"
    by (simp add: scaleProportional_real_def scale_iter.simps clamp_pass_def share_def
          pool_weight_def clamped_count_def)
  moreover have "outerRadius DEFAULT_RADAR_PIE_CONFIG - innerRadius DEFAULT_RADAR_PIE_CONFIG
        - ringPadding DEFAULT_RADAR_PIE_CONFIG * Fin (real (length rings3) - 1) = Fin 250"
    by (simp add: DEFAULT_RADAR_PIE_CONFIG_def)
  moreover have "minRingRadius DEFAULT_RADAR_PIE_CONFIG = Fin 30"
    by (simp add: DEFAULT_RADAR_PIE_CONFIG_def)
  ultimately show ?thesis
    by (simp only: scaleProportional_Fin)
qed

theorem C6_ring_radii_witness:
  "ring_radius (layout_rings scaleProportional DEFAULT_RADAR_PIE_CONFIG rings3 ! 2) = Some (Fin 30)
   \<and> ring_innerRadius (layout_rings scaleProportional DEFAULT_RADAR_PIE_CONFIG rings3 ! 2) = Some (Fin 220)"
  using C6_ring_radii [of scaleProportional rings3 DEFAULT_RADAR_PIE_CONFIG "[180, 40, 30]" 0 0 2]
        rings3_scaled
  by (simp add: DEFAULT_RADAR_PIE_CONFIG_def rings3_def lessThan_Suc numeral_2_eq_2)

section \<open>Properties of segment arcs, slice labels and item placement\<close>

lemma calculateAnchorPlacement_Fin:
  "\<exists>p. calculateAnchorPlacement (Fin a) None = Inr p"
  using calculateAnchorPlacement_total [of "Fin a"] by simp

text \<open>
  Claim C8. For a slice with at least one sub-slice whose first and last sub-slice
  carry arcs, and finite angles, radii and distances, the slice pass succeeds; the
  mid angle is the midpoint of the first start and the last end, the label point is
  the point at radius \<open>outerRadius + sliceLabelDistance\<close> of the first arc along the
  mid angle, and the divider runs along the first start angle from the inner radius
  to \<open>outerRadius + sliceDividerOutFlowLength\<close>. Angles are measured clockwise from
  the upward axis and the y axis points down, so the point at radius \<open>r\<close> and angle
  \<open>a\<close> is \<open>(r * sin a, - (r * cos a))\<close>.
\<close>

theorem C8_slice_label:
  assumes "subSlices slice = first # rest"
    and "ss_arcParams first = Some fa"
    and "ss_arcParams (last (first # rest)) = Some la"
    and "startAngle fa = Fin s" and "endAngle la = Fin e"
    and "arc_innerRadius fa = Fin rin" and "arc_outerRadius fa = Fin rout"
    and "sliceLabelDistance cfg = Fin d" and "sliceDividerOutFlowLength cfg = Fin out"
  shows "\<exists>slice' ld. slice_step cfg slice = Inr slice'
       \<and> slice_labelData slice' = Some ld
       \<and> midAngle ld = Fin ((s + e) / 2)
       \<and> lbl_x ld = Fin ((rout + d) * sin ((s + e) / 2))
       \<and> lbl_y ld = Fin (- ((rout + d) * cos ((s + e) / 2)))
       \<and> x1 (dividerLine ld) = Fin (rin * sin s)
       \<and> y1 (dividerLine ld) = Fin (- (rin * cos s))
       \<and> x2 (dividerLine ld) = Fin ((rout + out) * sin s)
       \<and> y2 (dividerLine ld) = Fin (- ((rout + out) * cos s))"
proof -
  have mid: "startAngle fa + (endAngle la - startAngle fa) / Fin 2 = Fin ((s + e) / 2)"
    by (simp add: assms(4,5) field_simps)
  obtain p where p: "calculateAnchorPlacement (Fin ((s + e) / 2)) None = Inr p"
    using calculateAnchorPlacement_Fin by blast
  have c: "js_cos (Fin a - Fin pi / Fin 2) = Fin (sin a)"
          "js_sin (Fin a - Fin pi / Fin 2) = Fin (- cos a)" for a :: real
    by (simp_all add: cos_diff sin_diff)
  have r: "arc_outerRadius fa + sliceLabelDistance cfg = Fin (rout + d)"
          "arc_outerRadius fa + sliceDividerOutFlowLength cfg = Fin (rout + out)"
    by (simp_all add: assms(7-9))
  have "slice_labelData_of cfg fa la = Inr
          \<lparr>lbl_x = Fin (sin ((s + e) / 2)) * Fin (rout + d),
           lbl_y = Fin (- cos ((s + e) / 2)) * Fin (rout + d),
           bBoxPadding = sliceLabelPadding cfg,
           labelPlacement = p,
           midAngle = Fin ((s + e) / 2),
           dividerLine =
             \<lparr>x1 = Fin (sin s) * Fin rin, y1 = Fin (- cos s) * Fin rin,
              x2 = Fin (sin s) * Fin (rout + out), y2 = Fin (- cos s) * Fin (rout + out)\<rparr>\<rparr>"
    unfolding slice_labelData_of_def
    by (simp only: mid Let_def) (simp only: p sum.case c r assms(4,6))
  then have "slice_labelData_of cfg fa la = Inr
          \<lparr>lbl_x = Fin ((rout + d) * sin ((s + e) / 2)),
           lbl_y = Fin (- ((rout + d) * cos ((s + e) / 2))),
           bBoxPadding = sliceLabelPadding cfg,
           labelPlacement = p,
           midAngle = Fin ((s + e) / 2),
           dividerLine =
             \<lparr>x1 = Fin (rin * sin s), y1 = Fin (- (rin * cos s)),
              x2 = Fin ((rout + out) * sin s), y2 = Fin (- ((rout + out) * cos s))\<rparr>\<rparr>"
    by (simp add: mult.commute)
  then show ?thesis
    using assms(1-3) by (simp add: slice_step_def)
qed



lemma calculateAnchorPlacement_quarter:
  "calculateAnchorPlacement (Fin 0) (Some (Fin (pi / 2))) = Inr \<lparr>hAnchor = H_start, vAnchor = V_middle\<rparr>"
proof -
  have "anchor_rads (Fin 0) (Some (Fin (pi / 2))) = degToRad (Fin 45)"
    by (simp add: anchor_rads_def degToRad_Fin)
  then show ?thesis
    using anchor_h_deg [of 45] anchor_v_deg [of 45]
    by (simp add: calculateAnchorPlacement_def)
qed

theorem C8_slice_label_witness:
  "\<exists>slice' ld.
     slice_step DEFAULT_RADAR_PIE_CONFIG
       \<lparr>slice_id = ''s'', slice_label = ''S'', slice_labelData = None,
        subSlices = [tools_subSlice\<lparr>ss_arcParams := Some quarter_arc\<rparr>]\<rparr> = Inr slice'
     \<and> slice_labelData slice' = Some ld
     \<and> midAngle ld = Fin (pi / 4)
     \<and> lbl_x ld = Fin (310 * sin (pi / 4))
     \<and> lbl_y ld = Fin (- (310 * cos (pi / 4)))
     \<and> x1 (dividerLine ld) = Fin 0 \<and> y1 (dividerLine ld) = Fin 0
     \<and> x2 (dividerLine ld) = Fin 0 \<and> y2 (dividerLine ld) = Fin (- 250)"
  using C8_slice_label [of "\<lparr>slice_id = ''s'', slice_label = ''S'', slice_labelData = None,
        subSlices = [tools_subSlice\<lparr>ss_arcParams := Some quarter_arc\<rparr>]\<rparr>"
        "tools_subSlice\<lparr>ss_arcParams := Some quarter_arc\<rparr>" "[]" quarter_arc quarter_arc
        0 "pi / 2" 0 250 DEFAULT_RADAR_PIE_CONFIG 60 0]
  by (simp add: quarter_arc_def DEFAULT_RADAR_PIE_CONFIG_def)

text \<open>
  Claim C9. For a segment with a valid ring level and arc parameters: with exactly
  one item the constructor succeeds and that item's position is the centroid of the
  segment's arc; with no items it succeeds and leaves the segment as it is; in both
  cases the result does not depend on the point distribution function.
\<close>

theorem C9_segment_items:
  assumes "seg_ringLevel seg < length rs"
    and "seg_arcParams seg = Some arcParams"
  shows "(\<forall>it. seg_items seg = [it] \<longrightarrow>
            (\<exists>r. RadarSegment_constructor g seg rs = Inr r
               \<and> seg_items (segment r) =
                   [it\<lparr>item_x := Some (fst (arcGenerator_centroid g arcParams)),
                       item_y := Some (snd (arcGenerator_centroid g arcParams))\<rparr>]))
       \<and> (seg_items seg = [] \<longrightarrow>
            (\<exists>r. RadarSegment_constructor g seg rs = Inr r \<and> segment r = seg))
       \<and> (length (seg_items seg) \<le> 1 \<longrightarrow>
            (\<forall>f. RadarSegment_constructor (g\<lparr>distributePointsWithinBoundary := f\<rparr>) seg rs
                   = RadarSegment_constructor g seg rs))"
proof (intro conjI allI impI)
  fix it assume "seg_items seg = [it]"
  then show "\<exists>r. RadarSegment_constructor g seg rs = Inr r
               \<and> seg_items (segment r) =
                   [it\<lparr>item_x := Some (fst (arcGenerator_centroid g arcParams)),
                       item_y := Some (snd (arcGenerator_centroid g arcParams))\<rparr>]"
    using assms by (simp add: RadarSegment_constructor_def nth_opt_def Let_def)
next
  assume "seg_items seg = []"
  then show "\<exists>r. RadarSegment_constructor g seg rs = Inr r \<and> segment r = seg"
    using assms by (simp add: RadarSegment_constructor_def nth_opt_def Let_def)
next
  fix f assume "length (seg_items seg) \<le> 1"
  then consider "seg_items seg = []" | "length (seg_items seg) = 1"
    by (cases "seg_items seg") auto
  then show "RadarSegment_constructor (g\<lparr>distributePointsWithinBoundary := f\<rparr>) seg rs
                   = RadarSegment_constructor g seg rs"
    using assms
    by cases (simp_all add: RadarSegment_constructor_def getItemBoundaryArc_def nth_opt_def Let_def)
qed

theorem C9_segment_items_witness:
  "(\<exists>r. RadarSegment_constructor example_geometry
           (hold_segment\<lparr>seg_arcParams := Some quarter_arc\<rparr>) rings_laid = Inr r
       \<and> seg_items (segment r) =
           [\<lparr>item_groupId = ''g'',
             item_x = Some (fst (arcGenerator_centroid example_geometry quarter_arc)),
             item_y = Some (snd (arcGenerator_centroid example_geometry quarter_arc))\<rparr>])
   \<and> (\<exists>r. RadarSegment_constructor example_geometry
           (hold_segment\<lparr>seg_items := [], seg_arcParams := Some quarter_arc\<rparr>) rings_laid = Inr r
       \<and> seg_items (segment r) = [])"
  using C9_segment_items [of "hold_segment\<lparr>seg_arcParams := Some quarter_arc\<rparr>" rings_laid quarter_arc example_geometry]
        C9_segment_items [of "hold_segment\<lparr>seg_items := [], seg_arcParams := Some quarter_arc\<rparr>" rings_laid quarter_arc example_geometry]
  by (auto simp: hold_segment_def rings_laid_def)

section \<open>Properties of the proportional scaler\<close>

lemma length_clamp_pass [simp]: "length (clamp_pass t m xs) = length xs"
  by (simp add: clamp_pass_def)

lemma length_scale_iter [simp]: "length (scale_iter t m xs) = length xs"
proof (induction t m xs rule: scale_iter.induct)
  case (1 t m xs)
  show ?case
  proof (cases "clamp_pass t m xs = xs")
    case True
    then show ?thesis by (subst scale_iter.simps) simp
  next
    case False
    then show ?thesis using "1.IH" by (subst scale_iter.simps) simp
  qed
qed

lemma length_scaleProportional_real [simp]: "length (scaleProportional_real ws t m) = length ws"
  by (simp add: scaleProportional_real_def)

lemma clamp_pass_fixed:
  assumes "clamp_pass t m xs = xs" and "x \<in> set xs" and "\<not> snd x"
  shows "m \<le> share t m xs (fst x)"
proof -
  from assms(2) obtain i where i: "i < length xs" "xs ! i = x" by (auto simp: in_set_conv_nth)
  have "clamp_pass t m xs ! i = (fst x, snd x \<or> share t m xs (fst x) < m)"
    using i by (simp add: clamp_pass_def)
  with assms(1) i have "x = (fst x, snd x \<or> share t m xs (fst x) < m)" by simp
  then have "snd x = (snd x \<or> share t m xs (fst x) < m)" by (metis snd_conv)
  with assms(3) show ?thesis by auto
qed

lemma scale_iter_ge: "v \<in> set (scale_iter t m xs) \<Longrightarrow> m \<le> v"
proof (induction t m xs rule: scale_iter.induct)
  case (1 t m xs)
  show ?case
  proof (cases "clamp_pass t m xs = xs")
    case True
    then have "scale_iter t m xs = map (\<lambda>x. if snd x then m else share t m xs (fst x)) xs"
      by (subst scale_iter.simps) simp
    with "1.prems" obtain x where "x \<in> set xs" "v = (if snd x then m else share t m xs (fst x))"
      by auto
    then show ?thesis using clamp_pass_fixed [OF True] by (cases "snd x") auto
  next
    case False
    then have "scale_iter t m xs = scale_iter t m (clamp_pass t m xs)"
      by (subst scale_iter.simps) simp
    then show ?thesis using "1.IH" [OF False] "1.prems" by simp
  qed
qed

lemma sum_list_split_flag:
  "sum_list (map (\<lambda>x. if snd x then (m::real) else f x) xs)
     = m * real (length (filter snd xs)) + sum_list (map f (filter (\<lambda>x. \<not> snd x) xs))"
  by (induction xs) (simp_all add: algebra_simps)

lemma sum_list_share:
  "sum_list (map (\<lambda>x. share t m xs (fst x)) ys)
     = (if pool_weight xs = 0 then 0
        else sum_list (map fst ys) / pool_weight xs * (t - m * real (clamped_count xs)))"
  by (induction ys) (simp_all add: share_def algebra_simps add_divide_distrib)

lemma fixed_sum:
  "sum_list (map (\<lambda>x. if snd x then m else share t m xs (fst x)) xs)
     = (if pool_weight xs = 0 then m * real (clamped_count xs) else t)"
  by (simp add: sum_list_split_flag sum_list_share clamped_count_def [symmetric])
     (simp add: pool_weight_def)

lemma clamped_count_le: "clamped_count xs \<le> length xs"
  by (simp add: clamped_count_def)

lemma scale_iter_sum_le:
  assumes "0 \<le> m" and "m * real (length xs) \<le> t"
  shows "sum_list (scale_iter t m xs) \<le> t"
  using assms
proof (induction t m xs rule: scale_iter.induct)
  case (1 t m xs)
  show ?case
  proof (cases "clamp_pass t m xs = xs")
    case True
    then have eq: "scale_iter t m xs = map (\<lambda>x. if snd x then m else share t m xs (fst x)) xs"
      by (subst scale_iter.simps) simp
    have "m * real (clamped_count xs) \<le> m * real (length xs)"
      using "1.prems"(1) clamped_count_le [of xs] by (intro mult_left_mono) auto
    then show ?thesis using "1.prems" by (simp add: eq fixed_sum)
  next
    case False
    then have "scale_iter t m xs = scale_iter t m (clamp_pass t m xs)"
      by (subst scale_iter.simps) simp
    then show ?thesis using "1.IH" [OF False] "1.prems" by simp
  qed
qed

lemma scaleProportional_real_ge: "v \<in> set (scaleProportional_real ws t m) \<Longrightarrow> m \<le> v"
  by (auto simp: scaleProportional_real_def dest: scale_iter_ge split: if_splits)

lemma scaleProportional_real_sum_le:
  "0 \<le> m \<Longrightarrow> m * real (length ws) \<le> t \<Longrightarrow> sum_list (scaleProportional_real ws t m) \<le> t"
  using scale_iter_sum_le [of m "map (\<lambda>w. (w, False)) ws" t]
  by (simp add: scaleProportional_real_def)

text \<open>With the floor zero and non-negative weights nothing is clamped.\<close>

lemma scale_zero_floor:
  assumes "\<forall>w\<in>set ws. 0 \<le> w" and "0 \<le> t"
  shows "scaleProportional_real ws t 0 = map (\<lambda>w. if sum_list ws = 0 then 0 else w / sum_list ws * t) ws"
proof -
  let ?xs = "map (\<lambda>w. (w, False)) ws"
  have pw: "pool_weight ?xs = sum_list ws"
    by (simp add: pool_weight_def comp_def)
  have cc: "clamped_count ?xs = 0" by (simp add: clamped_count_def)
  have nn: "0 \<le> sum_list ws" using assms(1) by (simp add: sum_list_nonneg)
  have sh: "0 \<le> share t 0 ?xs w" if "w \<in> set ws" for w
    using that assms nn by (simp add: share_def pw)
  have fx: "clamp_pass t 0 ?xs = ?xs"
    unfolding clamp_pass_def using sh by (auto simp: not_less)
  have "scale_iter t 0 ?xs = map (\<lambda>x. if snd x then 0 else share t 0 ?xs (fst x)) ?xs"
    using fx by (subst scale_iter.simps) simp
  also have "\<dots> = map (\<lambda>w. if sum_list ws = 0 then 0 else w / sum_list ws * t) ws"
    by (simp add: share_def pw cc comp_def)
  finally show ?thesis using assms(2) by (simp add: scaleProportional_real_def)
qed

lemma scaleProportional_real_pos_sum:
  assumes "ws \<noteq> []" and "\<forall>w\<in>set ws. 0 \<le> w" and "0 < t" and "0 \<le> m"
    and "0 < m \<or> (\<exists>w\<in>set ws. 0 < w)"
  shows "0 < sum_list (scaleProportional_real ws t m)"
proof (cases "0 < m")
  case True
  let ?ys = "scaleProportional_real ws t m"
  have "?ys \<noteq> []" using assms(1) by (metis length_scaleProportional_real length_0_conv)
  then obtain y ys where ys: "?ys = y # ys" by (cases ?ys) auto
  have "\<forall>v\<in>set ?ys. m \<le> v" using scaleProportional_real_ge by blast
  then have "m \<le> y" "\<forall>v\<in>set ys. 0 \<le> v" using ys True by auto
  then have "0 < y" "0 \<le> sum_list ys" using True by (auto simp: sum_list_nonneg)
  then show ?thesis using ys by simp
next
  case False
  with assms have m: "m = 0" and ex: "\<exists>w\<in>set ws. 0 < w" by auto
  have nn: "0 \<le> sum_list ws" using assms(2) by (simp add: sum_list_nonneg)
  from ex obtain w where w: "w \<in> set ws" "0 < w" by blast
  have "w \<le> sum_list ws" using member_le_sum_list [OF w(1)] assms(2) by simp
  then have pos: "0 < sum_list ws" using w by simp
  have "sum_list (scaleProportional_real ws t 0) = sum_list (map (\<lambda>w. w / sum_list ws * t) ws)"
    using scale_zero_floor [OF assms(2)] assms(3) pos by simp
  also have "\<dots> = sum_list ws / sum_list ws * t"
  proof -
    have "sum_list (map (\<lambda>w. w / c * t) us) = sum_list us / c * t" for c and us :: "real list"
      by (induction us) (simp_all add: algebra_simps add_divide_distrib)
    then show ?thesis .
  qed
  also have "\<dots> = t" using pos by simp
  finally show ?thesis using m assms(3) by simp
qed

section \<open>Properties of the pie generator and of the sub-slice arcs\<close>

lemma pie_sum_Fin_aux:
  "\<forall>x\<in>set xs. 0 \<le> x \<Longrightarrow>
   foldl (\<lambda>s v. if v > Fin 0 then s + v else s) (Fin a) (map Fin xs) = Fin (a + sum_list xs)"
proof (induction xs arbitrary: a)
  case Nil
  then show ?case by simp
next
  case (Cons x xs)
  then show ?case by (cases "x = 0") (simp_all add: add.assoc)
qed

lemma pie_sum_Fin: "\<forall>x\<in>set xs. 0 \<le> x \<Longrightarrow> pie_sum (map Fin xs) = Fin (sum_list xs)"
  using pie_sum_Fin_aux [of xs 0] by (simp add: pie_sum_def)

lemma pie_arcs_Fin:
  "\<forall>x\<in>set xs. 0 \<le> x \<Longrightarrow>
   pie_arcs (Fin k) (Fin p) (Fin a) (map Fin xs) =
     map (\<lambda>i. (Fin (a + (\<Sum>j<i. xs ! j * k + p)), Fin (a + (\<Sum>j<Suc i. xs ! j * k + p)), Fin p))
         [0..<length xs]"
proof (induction xs arbitrary: a)
  case Nil
  then show ?case by simp
next
  case (Cons x xs)
  have step: "Fin a + (if Fin 0 < Fin x then Fin x * Fin k else Fin 0) + Fin p = Fin (a + (x * k + p))"
    by (cases "x = 0") (use Cons.prems in \<open>simp_all add: add.assoc\<close>)
  have IH: "pie_arcs (Fin k) (Fin p) (Fin (a + (x * k + p))) (map Fin xs) =
     map (\<lambda>i. (Fin (a + (x * k + p) + (\<Sum>j<i. xs ! j * k + p)),
                 Fin (a + (x * k + p) + (\<Sum>j<Suc i. xs ! j * k + p)), Fin p))
         [0..<length xs]"
    using Cons.IH [of "a + (x * k + p)"] Cons.prems by simp
  have shift: "(\<Sum>j<Suc i. (x # xs) ! j * k + p) = (x * k + p) + (\<Sum>j<i. xs ! j * k + p)" for i
    by (simp add: sum.lessThan_Suc_shift del: sum.lessThan_Suc)
  have "map (\<lambda>i. (Fin (a + (\<Sum>j<i. (x # xs) ! j * k + p)),
                   Fin (a + (\<Sum>j<Suc i. (x # xs) ! j * k + p)), Fin p)) [0..<length (x # xs)]
      = (Fin a, Fin (a + (x * k + p)), Fin p) #
        map (\<lambda>i. (Fin (a + (\<Sum>j<Suc i. (x # xs) ! j * k + p)),
                   Fin (a + (\<Sum>j<Suc (Suc i). (x # xs) ! j * k + p)), Fin p)) [0..<length xs]"
    by (simp add: upt_conv_Cons map_Suc_upt [symmetric] del: upt_Suc sum.lessThan_Suc)
  also have "\<dots> = (Fin a, Fin (a + (x * k + p)), Fin p) #
        map (\<lambda>i. (Fin (a + (x * k + p) + (\<Sum>j<i. xs ! j * k + p)),
                 Fin (a + (x * k + p) + (\<Sum>j<Suc i. xs ! j * k + p)), Fin p)) [0..<length xs]"
    by (simp only: shift add.assoc)
  finally show ?case
    by (simp only: list.map pie_arcs.simps Let_def step IH)
qed

lemma js_min_Fin: "js_min (Fin a) (Fin b) = Fin (min a b)"
  by (simp add: js_min_def min_def)

lemma d3_pie_Fin:
  assumes "xs \<noteq> []" and "\<forall>x\<in>set xs. 0 \<le> x" and "0 < sum_list xs"
  shows "d3_pie (map Fin xs) (Fin pd) =
     map (\<lambda>i. (Fin (\<Sum>j<i. xs ! j * ((2 * pi - real (length xs) * min (2 * pi / real (length xs)) pd) / sum_list xs)
                          + min (2 * pi / real (length xs)) pd),
                 Fin (\<Sum>j<Suc i. xs ! j * ((2 * pi - real (length xs) * min (2 * pi / real (length xs)) pd) / sum_list xs)
                          + min (2 * pi / real (length xs)) pd),
                 Fin (min (2 * pi / real (length xs)) pd)))
         [0..<length xs]"
proof -
  have n: "real (length xs) \<noteq> 0" using assms(1) by simp
  have p: "js_min (Fin (2 * pi) / Fin (real (length xs))) (Fin pd) = Fin (min (2 * pi / real (length xs)) pd)"
    using n by (simp add: js_min_Fin)
  have s: "pie_sum (map Fin xs) = Fin (sum_list xs)" using pie_sum_Fin assms(2) by simp
  have k: "(Fin (2 * pi) - Fin (real (length xs)) * Fin (min (2 * pi / real (length xs)) pd)) / Fin (sum_list xs)
         = Fin ((2 * pi - real (length xs) * min (2 * pi / real (length xs)) pd) / sum_list xs)"
    using assms(3) by simp
  have t: "truthy (Fin (sum_list xs))" using assms(3) by simp
  show ?thesis
    unfolding d3_pie_def
    apply (simp only: Let_def length_map p s k t if_True)
    apply (subst pie_arcs_Fin [OF assms(2)])
    apply simp
    done
qed



lemma map_nth_opt_Fin:
  "length ys = n \<Longrightarrow> map (\<lambda>idx. num_of (nth_opt (map Fin ys) idx)) [0..<n] = map Fin ys"
  by (rule nth_equalityI) (simp_all add: nth_opt_def)

lemma sum_nth_sum_list: "(\<Sum>j<length ys. ys ! j) = sum_list (ys :: real list)"
  by (simp add: sum_list_sum_nth atLeast0LessThan)

lemma subSlice_arcs_Fin:
  assumes "flat \<noteq> []"
    and "map cat_itemCount flat = map Fin cs"
    and "\<forall>c\<in>set cs. 0 \<le> c"
    and "minSubSliceAngle cfg = Fin m" and "0 \<le> m"
    and "0 < m \<or> (\<exists>c\<in>set cs. 0 < c)"
    and "subSlicePadAngle cfg = Fin pd"
    and "ys = scaleProportional_real cs 360 m"
    and "p = min (2 * pi / real (length flat)) (pd * pi / 180)"
    and "k = (2 * pi - real (length flat) * p) / sum_list ys"
  shows "subSlice_arcs scaleProportional cfg flat =
     map (\<lambda>i. \<lparr>startAngle = Fin (\<Sum>j<i. ys ! j * k + p),
                 endAngle = Fin (\<Sum>j<Suc i. ys ! j * k + p),
                 padAngle = Fin p,
                 arc_innerRadius = innerRadius cfg, arc_outerRadius = outerRadius cfg\<rparr>)
         [0..<length flat]"
proof -
  have len: "length cs = length flat" using assms(2) by (metis length_map)
  have cs: "cs \<noteq> []" using len assms(1) by auto
  have ylen: "length ys = length flat" using len by (simp add: assms(8))
  have ys0: "\<forall>y\<in>set ys. 0 \<le> y"
  proof
    fix y assume "y \<in> set ys"
    then have "m \<le> y" using scaleProportional_real_ge [of y cs 360 m] by (simp add: assms(8))
    then show "0 \<le> y" using assms(5) by simp
  qed
  have ypos: "0 < sum_list ys"
    using scaleProportional_real_pos_sum [OF cs assms(3) _ assms(5,6), of 360] by (simp add: assms(8))
  have sc: "scaleProportional (map cat_itemCount flat) (Fin 360) (minSubSliceAngle cfg) = map Fin ys"
    by (simp add: assms(2,4,8) scaleProportional_Fin)
  have vs: "map (\<lambda>idx. num_of (nth_opt (map Fin ys) idx)) [0..<length flat] = map Fin ys"
    using map_nth_opt_Fin [OF ylen] .
  have yne: "ys \<noteq> []" using ylen assms(1) by auto
  have pie: "d3_pie (map Fin ys) (Fin (pd * pi / 180)) =
     map (\<lambda>i. (Fin (\<Sum>j<i. ys ! j * k + p), Fin (\<Sum>j<Suc i. ys ! j * k + p), Fin p)) [0..<length flat]"
    using d3_pie_Fin [OF yne ys0 ypos, of "pd * pi / 180"]
    by (simp only: ylen assms(9,10))
  show ?thesis
    unfolding subSlice_arcs_def
    by (simp only: Let_def sc vs assms(7) degToRad_Fin pie) (simp add: comp_def)
qed

lemma arcs_span_bound:
  fixes m y S p :: real
  assumes "0 \<le> m" and "m \<le> y" and "0 < S" and "S \<le> 360"
    and "0 \<le> p" and "real n * p \<le> 2 * pi" and "m * real n \<le> 360"
  shows "m \<le> (y * ((2 * pi - real n * p) / S) + p) * 180 / pi"
proof -
  let ?R = "2 * pi - real n * p"
  have R: "0 \<le> ?R" using assms(6) by simp
  have "?R / 360 \<le> ?R / S" using assms(3,4) R by (intro divide_left_mono) auto
  then have "m * (?R / 360) \<le> y * (?R / S)"
    using assms(1,2) R assms(3) by (intro mult_mono) auto
  moreover have "m * pi / 180 \<le> m * (?R / 360) + p"
  proof -
    have "m * (?R / 360) + p = m * pi / 180 + p * (1 - m * real n / 360)"
      by (simp add: field_simps)
    moreover have "0 \<le> p * (1 - m * real n / 360)"
      using assms(5,7) by (intro mult_nonneg_nonneg) auto
    ultimately show ?thesis by simp
  qed
  ultimately have "m * pi / 180 \<le> y * (?R / S) + p" by linarith
  then have "m * pi \<le> (y * (?R / S) + p) * 180" by simp
  then show ?thesis using pi_gt_zero by (simp add: pos_le_divide_eq)
qed

lemma sum_spans_telescope:
  fixes c :: "nat \<Rightarrow> real"
  shows "(\<Sum>i<n. c (Suc i) - c i) = c n - c 0"
  by (induction n) simp_all

text \<open>
  Claim C1, amended. For a non-empty flat list of sub-slices with finite,
  non-negative item counts, a finite floor \<open>m \<ge> 0\<close> that is positive unless some
  count is, and a finite pad angle \<open>pd \<ge> 0\<close> (degrees), the arcs are one per
  sub-slice in the order of the list; the first starts at 0, each next one starts
  where the previous ends, the last ends at \<open>2\<pi>\<close>, no arc ends before it starts,
  every arc has the pad angle \<open>min (2\<pi> / n) (pd * \<pi> / 180)\<close>, and the spans
  \<open>endAngle - startAngle\<close>, each of which contains its pad angle, sum to \<open>2\<pi>\<close>.
  When \<open>m * n \<le> 360\<close> no span, in degrees, is below \<open>m\<close>.
\<close>

theorem C1_subSlice_partition:
  assumes "flat \<noteq> []"
    and "map cat_itemCount flat = map Fin cs"
    and "\<forall>c\<in>set cs. 0 \<le> c"
    and "minSubSliceAngle cfg = Fin m" and "0 \<le> m"
    and "0 < m \<or> (\<exists>c\<in>set cs. 0 < c)"
    and "subSlicePadAngle cfg = Fin pd" and "0 \<le> pd"
  shows "length (subSlice_arcs scaleProportional cfg flat) = length flat
       \<and> startAngle (subSlice_arcs scaleProportional cfg flat ! 0) = Fin 0
       \<and> endAngle (subSlice_arcs scaleProportional cfg flat ! (length flat - 1)) = Fin (2 * pi)
       \<and> (\<forall>i. Suc i < length flat \<longrightarrow>
             startAngle (subSlice_arcs scaleProportional cfg flat ! Suc i)
               = endAngle (subSlice_arcs scaleProportional cfg flat ! i))
       \<and> (\<forall>i<length flat.
             is_fin (startAngle (subSlice_arcs scaleProportional cfg flat ! i))
           \<and> is_fin (endAngle (subSlice_arcs scaleProportional cfg flat ! i))
           \<and> startAngle (subSlice_arcs scaleProportional cfg flat ! i)
               \<le> endAngle (subSlice_arcs scaleProportional cfg flat ! i)
           \<and> padAngle (subSlice_arcs scaleProportional cfg flat ! i)
               = Fin (min (2 * pi / real (length flat)) (pd * pi / 180)))
       \<and> (\<Sum>i<length flat. the_fin (endAngle (subSlice_arcs scaleProportional cfg flat ! i))
                             - the_fin (startAngle (subSlice_arcs scaleProportional cfg flat ! i)))
           = 2 * pi
       \<and> (m * real (length flat) \<le> 360 \<longrightarrow>
            (\<forall>i<length flat.
               Fin m \<le> (endAngle (subSlice_arcs scaleProportional cfg flat ! i)
                         - startAngle (subSlice_arcs scaleProportional cfg flat ! i))
                        * Fin 180 / Fin pi))"
proof -
  define n where "n = length flat"
  define ys where "ys = scaleProportional_real cs 360 m"
  define p where "p = min (2 * pi / real n) (pd * pi / 180)"
  define k where "k = (2 * pi - real n * p) / sum_list ys"
  define c where "c = (\<lambda>i. \<Sum>j<i. ys ! j * k + p)"
  define arcs where "arcs = subSlice_arcs scaleProportional cfg flat"
  have arcs: "arcs = map (\<lambda>i. \<lparr>startAngle = Fin (c i), endAngle = Fin (c (Suc i)), padAngle = Fin p,
                 arc_innerRadius = innerRadius cfg, arc_outerRadius = outerRadius cfg\<rparr>) [0..<n]"
    unfolding arcs_def c_def n_def
    by (rule subSlice_arcs_Fin [OF assms(1-7)]) (simp_all add: ys_def p_def k_def n_def)
  have npos: "0 < n" using assms(1) by (simp add: n_def)
  have len: "length cs = n" using assms(2) unfolding n_def by (metis length_map)
  have cs: "cs \<noteq> []" using len npos by auto
  have ylen: "length ys = n" by (simp add: ys_def len)
  have yge: "m \<le> ys ! i" if "i < n" for i
    using scaleProportional_real_ge [of "ys ! i" cs 360 m] that ylen by (simp add: ys_def)
  have ypos: "0 < sum_list ys"
    using scaleProportional_real_pos_sum [OF cs assms(3) _ assms(5,6), of 360] by (simp add: ys_def)
  have p0: "0 \<le> p" using assms(8) npos by (simp add: p_def)
  have pn: "real n * p \<le> 2 * pi"
  proof -
    have "p \<le> 2 * pi / real n" by (simp add: p_def)
    then have "real n * p \<le> real n * (2 * pi / real n)" using npos by (intro mult_left_mono) auto
    then show ?thesis using npos by simp
  qed
  have k0: "0 \<le> k" using pn ypos by (simp add: k_def)
  have nth: "arcs ! i = \<lparr>startAngle = Fin (c i), endAngle = Fin (c (Suc i)), padAngle = Fin p,
                 arc_innerRadius = innerRadius cfg, arc_outerRadius = outerRadius cfg\<rparr>" if "i < n" for i
    using that by (simp add: arcs)
  have step: "c (Suc i) - c i = ys ! i * k + p" for i by (simp add: c_def)
  have c0: "c 0 = 0" by (simp add: c_def)
  have cn: "c n = 2 * pi"
  proof -
    have "c n = (\<Sum>j<n. ys ! j) * k + real n * p"
      by (simp add: c_def sum.distrib sum_distrib_right)
    also have "(\<Sum>j<n. ys ! j) = sum_list ys" using sum_nth_sum_list [of ys] ylen by simp
    also have "sum_list ys * k = 2 * pi - real n * p" using ypos by (simp add: k_def)
    finally show ?thesis by simp
  qed
  have mono: "c i \<le> c (Suc i)" if "i < n" for i
  proof -
    have "0 \<le> ys ! i" using yge [OF that] assms(5) by simp
    then have "0 \<le> ys ! i * k + p" using k0 p0 by simp
    then show ?thesis using step [of i] by simp
  qed
  have A: "length arcs = n" by (simp add: arcs)
  have B: "startAngle (arcs ! 0) = Fin 0" using nth [OF npos] c0 by simp
  have C: "endAngle (arcs ! (n - 1)) = Fin (2 * pi)"
    using nth [of "n - 1"] npos cn by simp
  have D: "\<forall>i. Suc i < n \<longrightarrow> startAngle (arcs ! Suc i) = endAngle (arcs ! i)"
    by (simp add: nth)
  have E: "\<forall>i<n. is_fin (startAngle (arcs ! i)) \<and> is_fin (endAngle (arcs ! i))
         \<and> startAngle (arcs ! i) \<le> endAngle (arcs ! i)
         \<and> padAngle (arcs ! i) = Fin (min (2 * pi / real n) (pd * pi / 180))"
    using mono by (simp add: nth p_def)
  have F: "(\<Sum>i<n. the_fin (endAngle (arcs ! i)) - the_fin (startAngle (arcs ! i))) = 2 * pi"
  proof -
    have "(\<Sum>i<n. the_fin (endAngle (arcs ! i)) - the_fin (startAngle (arcs ! i)))
        = (\<Sum>i<n. c (Suc i) - c i)"
      by (rule sum.cong) (simp_all add: nth)
    then show ?thesis using sum_spans_telescope [of c n] c0 cn by simp
  qed
  have G: "m * real n \<le> 360 \<longrightarrow>
        (\<forall>i<n. Fin m \<le> (endAngle (arcs ! i) - startAngle (arcs ! i)) * Fin 180 / Fin pi)"
  proof (intro impI allI)
    fix i assume mn: "m * real n \<le> 360" and i: "i < n"
    have S: "sum_list ys \<le> 360"
      using scaleProportional_real_sum_le [of m cs 360] assms(5) mn len by (simp add: ys_def)
    have "m \<le> (ys ! i * ((2 * pi - real n * p) / sum_list ys) + p) * 180 / pi"
      by (rule arcs_span_bound [OF assms(5) yge [OF i] ypos S p0 pn mn])
    then have "m \<le> (c (Suc i) - c i) * 180 / pi" by (simp add: step k_def)
    then show "Fin m \<le> (endAngle (arcs ! i) - startAngle (arcs ! i)) * Fin 180 / Fin pi"
      using i by (simp add: nth)
  qed
  show ?thesis
    using A B C D E F G unfolding arcs_def n_def by blast
qed



theorem C1_subSlice_partition_witness:
  "length (subSlice_arcs scaleProportional DEFAULT_RADAR_PIE_CONFIG two_flat) = 2
   \<and> startAngle (subSlice_arcs scaleProportional DEFAULT_RADAR_PIE_CONFIG two_flat ! 0) = Fin 0
   \<and> startAngle (subSlice_arcs scaleProportional DEFAULT_RADAR_PIE_CONFIG two_flat ! 1)
       = endAngle (subSlice_arcs scaleProportional DEFAULT_RADAR_PIE_CONFIG two_flat ! 0)
   \<and> endAngle (subSlice_arcs scaleProportional DEFAULT_RADAR_PIE_CONFIG two_flat ! 1) = Fin (2 * pi)
   \<and> Fin 12 \<le> (endAngle (subSlice_arcs scaleProportional DEFAULT_RADAR_PIE_CONFIG two_flat ! 1)
                  - startAngle (subSlice_arcs scaleProportional DEFAULT_RADAR_PIE_CONFIG two_flat ! 1))
                 * Fin 180 / Fin pi"
proof -
  let ?arcs = "subSlice_arcs scaleProportional DEFAULT_RADAR_PIE_CONFIG two_flat"
  have len: "length two_flat = 2" by (simp add: two_flat_def)
  have T: "length ?arcs = length two_flat
       \<and> startAngle (?arcs ! 0) = Fin 0
       \<and> endAngle (?arcs ! (length two_flat - 1)) = Fin (2 * pi)
       \<and> (\<forall>i. Suc i < length two_flat \<longrightarrow> startAngle (?arcs ! Suc i) = endAngle (?arcs ! i))
       \<and> (\<forall>i<length two_flat.
             is_fin (startAngle (?arcs ! i)) \<and> is_fin (endAngle (?arcs ! i))
           \<and> startAngle (?arcs ! i) \<le> endAngle (?arcs ! i)
           \<and> padAngle (?arcs ! i) = Fin (min (2 * pi / real (length two_flat)) (2 / 10 * pi / 180)))
       \<and> (\<Sum>i<length two_flat. the_fin (endAngle (?arcs ! i)) - the_fin (startAngle (?arcs ! i)))
           = 2 * pi
       \<and> (12 * real (length two_flat) \<le> 360 \<longrightarrow>
            (\<forall>i<length two_flat.
               Fin 12 \<le> (endAngle (?arcs ! i) - startAngle (?arcs ! i)) * Fin 180 / Fin pi))"
    by (rule C1_subSlice_partition [of two_flat "[4, 1]" DEFAULT_RADAR_PIE_CONFIG 12 "2 / 10"])
       (simp_all add: two_flat_def DEFAULT_RADAR_PIE_CONFIG_def)
  from T have a: "length ?arcs = 2" and b: "startAngle (?arcs ! 0) = Fin 0"
    and c: "endAngle (?arcs ! 1) = Fin (2 * pi)"
    by (simp_all add: len)
  from T have "\<forall>i. Suc i < length two_flat \<longrightarrow> startAngle (?arcs ! Suc i) = endAngle (?arcs ! i)"
    by blast
  then have d: "startAngle (?arcs ! 1) = endAngle (?arcs ! 0)"
    using len by (metis One_nat_def Suc_1 lessI)
  from T have "12 * real (length two_flat) \<le> 360 \<longrightarrow>
            (\<forall>i<length two_flat.
               Fin 12 \<le> (endAngle (?arcs ! i) - startAngle (?arcs ! i)) * Fin 180 / Fin pi)"
    by blast
  then have e: "Fin 12 \<le> (endAngle (?arcs ! 1) - startAngle (?arcs ! 1)) * Fin 180 / Fin pi"
    using len by simp
  show ?thesis using a b c d e by blast
qed

lemma one_flat_arcs:
  "subSlice_arcs scaleProportional DEFAULT_RADAR_PIE_CONFIG one_flat =
     [\<lparr>startAngle = Fin 0, endAngle = Fin (2 * pi), padAngle = Fin (pi / 900),
       arc_innerRadius = Fin 0, arc_outerRadius = Fin 250\<rparr>]"
proof -
  have ys: "[360] = scaleProportional_real [4] 360 12"
    by (simp add: scaleProportional_real_def scale_iter.simps clamp_pass_def share_def
          pool_weight_def clamped_count_def)
  have p: "pi / 900 = min (2 * pi / real (length one_flat)) (2 / 10 * pi / 180)"
    by (simp add: one_flat_def min_def)
  have k: "(2 * pi - pi / 900) / 360 = (2 * pi - real (length one_flat) * (pi / 900)) / sum_list [360]"
    by (simp add: one_flat_def)
  have "subSlice_arcs scaleProportional DEFAULT_RADAR_PIE_CONFIG one_flat =
     map (\<lambda>i. \<lparr>startAngle = Fin (\<Sum>j<i. [360] ! j * ((2 * pi - pi / 900) / 360) + pi / 900),
                 endAngle = Fin (\<Sum>j<Suc i. [360] ! j * ((2 * pi - pi / 900) / 360) + pi / 900),
                 padAngle = Fin (pi / 900),
                 arc_innerRadius = innerRadius DEFAULT_RADAR_PIE_CONFIG,
                 arc_outerRadius = outerRadius DEFAULT_RADAR_PIE_CONFIG\<rparr>)
         [0..<length one_flat]"
    by (rule subSlice_arcs_Fin [where cs = "[4]" and m = 12 and pd = "2 / 10", OF _ _ _ _ _ _ _ ys p k])
       (simp_all add: one_flat_def DEFAULT_RADAR_PIE_CONFIG_def)
  then show ?thesis
    by (simp add: one_flat_def DEFAULT_RADAR_PIE_CONFIG_def)
qed

text \<open>
  Claim C1 as stated adds the total padding to the sum of the spans. For the single
  sub-slice under the default configuration the span alone is \<open>2\<pi>\<close> with a pad
  angle of \<open>\<pi> / 900\<close>, so span plus padding is not \<open>2\<pi>\<close>; and for an empty
  list there are no arcs at all.
\<close>

theorem C1_padding_counterexample:
  "padAngle (hd (subSlice_arcs scaleProportional DEFAULT_RADAR_PIE_CONFIG one_flat)) = Fin (pi / 900)
   \<and> endAngle (hd (subSlice_arcs scaleProportional DEFAULT_RADAR_PIE_CONFIG one_flat))
       - startAngle (hd (subSlice_arcs scaleProportional DEFAULT_RADAR_PIE_CONFIG one_flat)) = Fin (2 * pi)
   \<and> endAngle (hd (subSlice_arcs scaleProportional DEFAULT_RADAR_PIE_CONFIG one_flat))
       - startAngle (hd (subSlice_arcs scaleProportional DEFAULT_RADAR_PIE_CONFIG one_flat))
       + padAngle (hd (subSlice_arcs scaleProportional DEFAULT_RADAR_PIE_CONFIG one_flat)) \<noteq> Fin (2 * pi)
   \<and> subSlice_arcs scaleProportional DEFAULT_RADAR_PIE_CONFIG [] = []"
  by (simp add: one_flat_arcs) (simp add: subSlice_arcs_def d3_pie_def Let_def)

section \<open>Segment arcs of a placed sub-slice\<close>


lemma segment_arcParams_found:
  assumes "seg_ringLevel seg < length rs"
    and "find (\<lambda>r. ring_id r = seg_ringId seg) rs = Some r"
  shows "segment_arcParams rs arc seg = Inr (seg\<lparr>seg_arcParams := Some
           \<lparr>startAngle = startAngle arc, endAngle = endAngle arc, padAngle = padAngle arc,
            arc_innerRadius = num_of (ring_innerRadius (rs ! seg_ringLevel seg)),
            arc_outerRadius = num_of (ring_innerRadius (rs ! seg_ringLevel seg))
                              + num_of (ring_radius r)\<rparr>\<rparr>)"
  using assms by (simp add: segment_arcParams_def nth_opt_def Let_def)







section \<open>The constructor and the caller's content tree\<close>

lemma forEach_erase:
  assumes "\<And>x. e (fst (f x)) = e x"
  shows "map e (fst (forEach f xs)) = map e xs"
proof (induction xs)
  case Nil
  then show ?case by simp
next
  case (Cons x xs)
  then show ?case using assms [of x]
    by (cases "f x"; cases "snd (f x)"; cases "forEach f xs") auto
qed

lemma update_first_erase:
  assumes "\<And>x. e (fst (f x)) = e x"
  shows "map e (fst (update_first P f xs)) = map e xs"
proof (induction xs)
  case Nil
  then show ?case by simp
next
  case (Cons x xs)
  then show ?case using assms [of x]
    by (cases "f x"; cases "update_first P f xs") auto
qed

lemma foldM_erase:
  assumes "\<And>s x. e (fst (f s x)) = e s"
  shows "e (fst (foldM f s xs)) = e s"
proof (induction xs arbitrary: s)
  case Nil
  then show ?case by simp
next
  case (Cons x xs)
  show ?case using assms [of s x] Cons [of "fst (f s x)"]
    by (cases "f s x"; cases "snd (f s x)") auto
qed

lemma atomic_erase:
  assumes "\<And>y. f x = Inr y \<Longrightarrow> e y = e x"
  shows "e (fst (atomic f x)) = e x"
  using assms by (cases "f x") (simp_all add: atomic_def)

lemma segment_arcParams_erase:
  "segment_arcParams rs a seg = Inr seg' \<Longrightarrow> erase_segment seg' = erase_segment seg"
  by (auto simp: segment_arcParams_def erase_segment_def Let_def split: option.splits)

lemma place_subSlice_erase:
  "erase_subSlice (fst (place_subSlice cfg rs a ss)) = erase_subSlice ss"
proof -
  have "map erase_segment (fst (forEach (atomic (segment_arcParams rs a)) (segments ss)))
          = map erase_segment (segments ss)"
    by (rule forEach_erase) (rule atomic_erase, rule segment_arcParams_erase)
  then show ?thesis
    by (cases "subSlice_labelData cfg a";
        cases "forEach (atomic (segment_arcParams rs a)) (segments ss)")
       (simp_all add: place_subSlice_def erase_subSlice_def)
qed

lemma arc_step_erase:
  "map erase_slice (fst (arc_step cfg rs sls da)) = map erase_slice sls"
proof -
  obtain d a where da: "da = (d, a)" by (cases da)
  have inner: "erase_slice (fst (case update_first (\<lambda>subSlice. ss_id subSlice = cat_id d)
                (place_subSlice cfg rs a) (subSlices x) of
           (sss, r) \<Rightarrow> (x\<lparr>subSlices := sss\<rparr>, r))) = erase_slice x" for x
  proof -
    have "map erase_subSlice (fst (update_first (\<lambda>subSlice. ss_id subSlice = cat_id d)
                (place_subSlice cfg rs a) (subSlices x))) = map erase_subSlice (subSlices x)"
      by (rule update_first_erase) (rule place_subSlice_erase)
    then show ?thesis
      by (cases "update_first (\<lambda>subSlice. ss_id subSlice = cat_id d)
                (place_subSlice cfg rs a) (subSlices x)") (simp add: erase_slice_def)
  qed
  show ?thesis
    unfolding arc_step_def da
    by (simp only: prod.case) (rule update_first_erase, rule inner)
qed

lemma slice_step_erase:
  "slice_step cfg slice = Inr slice' \<Longrightarrow> erase_slice slice' = erase_slice slice"
  by (auto simp: slice_step_def erase_slice_def split: list.splits option.splits sum.splits)

lemma layout_rings_erase: "map erase_ring (layout_rings sp cfg rs) = map erase_ring rs"
  by (rule nth_equalityI) (simp_all add: layout_rings_nth erase_ring_def)

lemma RadarPie_layout_frame:
  "rings (fst (RadarPie_layout sp cfg c)) = layout_rings sp cfg (rings c)
   \<and> flat_subSlices (fst (RadarPie_layout sp cfg c)) = flat_subSlices c
   \<and> erase_content (fst (RadarPie_layout sp cfg c)) = erase_content c"
proof -
  let ?rs = "layout_rings sp cfg (rings c)"
  let ?F = "foldM (arc_step cfg ?rs) (slices c)
              (zip (flat_subSlices c) (subSlice_arcs sp cfg (flat_subSlices c)))"
  have f: "map erase_slice (fst ?F) = map erase_slice (slices c)"
    by (rule foldM_erase [where e = "map erase_slice"]) (rule arc_step_erase)
  have m: "map erase_slice (fst (forEach (atomic (slice_step cfg)) (fst ?F))) = map erase_slice (fst ?F)"
    by (rule forEach_erase) (rule atomic_erase, rule slice_step_erase)
  show ?thesis
    using f m
    by (cases ?F; cases "snd ?F"; cases "forEach (atomic (slice_step cfg)) (fst ?F)")
       (simp_all add: RadarPie_layout_def Let_def erase_content_def layout_rings_erase)
qed



lemma find_update_first_same:
  assumes "\<And>x. P x \<Longrightarrow> P (fst (f x))"
  shows "update_first P f xs = (ys, r) \<Longrightarrow>
         (find P xs = None \<and> r = Some TypeError)
         \<or> (\<exists>x. find P xs = Some x \<and> find P ys = Some (fst (f x)) \<and> r = snd (f x))"
proof (induction xs arbitrary: ys r)
  case Nil
  then show ?case by simp
next
  case (Cons x xs)
  show ?case
  proof (cases "P x")
    case True
    with Cons.prems have "ys = fst (f x) # xs" "r = snd (f x)"
      by (auto split: prod.splits)
    then show ?thesis using True assms [OF True] by simp
  next
    case False
    with Cons.prems obtain ys' where u: "update_first P f xs = (ys', r)" and ys: "ys = x # ys'"
      by (auto split: prod.splits)
    from Cons.IH [OF u] show ?thesis using False ys by simp
  qed
qed

lemma find_update_first_other:
  assumes "\<And>x. P x \<Longrightarrow> \<not> Q x \<and> \<not> Q (fst (f x))"
  shows "update_first P f xs = (ys, r) \<Longrightarrow> find Q ys = find Q xs"
proof (induction xs arbitrary: ys r)
  case Nil
  then show ?case by simp
next
  case (Cons x xs)
  show ?case
  proof (cases "P x")
    case True
    with Cons.prems have "ys = fst (f x) # xs" by (auto split: prod.splits)
    then show ?thesis using assms [OF True] by simp
  next
    case False
    with Cons.prems obtain ys' where u: "update_first P f xs = (ys', r)" and ys: "ys = x # ys'"
      by (auto split: prod.splits)
    from Cons.IH [OF u] show ?thesis using ys by simp
  qed
qed

lemma forEach_atomic_fix:
  assumes "\<And>x y. f x = Inr y \<Longrightarrow> f y = Inr y"
  shows "forEach (atomic f) xs = (ys, None) \<Longrightarrow> list_all (\<lambda>y. f y = Inr y) ys"
proof (induction xs arbitrary: ys)
  case Nil
  then show ?case by simp
next
  case (Cons x xs)
  show ?case
  proof (cases "f x")
    case (Inl e)
    with Cons.prems show ?thesis by (simp add: atomic_def)
  next
    case (Inr y)
    then have a: "atomic f x = (y, None)" by (simp add: atomic_def)
    obtain ys' r where fe: "forEach (atomic f) xs = (ys', r)"
      by (cases "forEach (atomic f) xs")
    with Cons.prems a have u: "forEach (atomic f) xs = (ys', None)" and ys: "ys = y # ys'"
      by simp_all
    from Cons.IH [OF u] assms [OF Inr] show ?thesis by (simp add: ys)
  qed
qed

lemma segment_arcParams_idem:
  "segment_arcParams rs a seg = Inr seg' \<Longrightarrow> segment_arcParams rs a seg' = Inr seg'"
  by (auto simp: segment_arcParams_def Let_def split: option.splits)

lemma slice_step_idem:
  "slice_step cfg slice = Inr slice' \<Longrightarrow> slice_step cfg slice' = Inr slice'"
  by (auto simp: slice_step_def split: list.splits option.splits sum.splits)

lemma place_subSlice_id [simp]: "ss_id (fst (place_subSlice cfg rs a ss)) = ss_id ss"
  by (cases "subSlice_labelData cfg a";
      cases "forEach (atomic (segment_arcParams rs a)) (segments ss)")
     (simp_all add: place_subSlice_def)

lemma place_subSlice_placed:
  assumes "snd (place_subSlice cfg rs a ss) = None"
  shows "placed cfg rs a (fst (place_subSlice cfg rs a ss))"
proof -
  from assms obtain ld where ld: "subSlice_labelData cfg a = Inr ld"
    by (cases "subSlice_labelData cfg a") (simp_all add: place_subSlice_def)
  obtain segs r where fe: "forEach (atomic (segment_arcParams rs a)) (segments ss) = (segs, r)"
    by (cases "forEach (atomic (segment_arcParams rs a)) (segments ss)")
  with assms ld have r: "r = None" by (simp add: place_subSlice_def)
  have "list_all (\<lambda>seg. segment_arcParams rs a seg = Inr seg) segs"
    by (rule forEach_atomic_fix [where f = "segment_arcParams rs a" and xs = "segments ss"])
       (use fe r segment_arcParams_idem in simp_all)
  then show ?thesis by (simp add: placed_def place_subSlice_def ld fe)
qed

lemma arc_step_locate_same:
  assumes "arc_step cfg rs sls (d, a) = (sls', None)"
  shows "\<exists>ss. locate sls d = Some ss \<and> locate sls' d = Some (fst (place_subSlice cfg rs a ss))
            \<and> snd (place_subSlice cfg rs a ss) = None"
proof -
  let ?P = "\<lambda>slice. cat_sliceId d = slice_id slice"
  let ?Q = "\<lambda>subSlice. ss_id subSlice = cat_id d"
  let ?U = "\<lambda>slice. update_first ?Q (place_subSlice cfg rs a) (subSlices slice)"
  let ?F = "\<lambda>slice. case ?U slice of (sss, r) \<Rightarrow> (slice\<lparr>subSlices := sss\<rparr>, r)"
  have F: "fst (?F slice) = slice\<lparr>subSlices := fst (?U slice)\<rparr>" "snd (?F slice) = snd (?U slice)" for slice
    by (cases "?U slice"; simp)+
  have pres: "?P x \<Longrightarrow> ?P (fst (?F x))" for x by (simp add: F)
  from assms have u: "update_first ?P ?F sls = (sls', None)" by (simp add: arc_step_def)
  from find_update_first_same [of ?P ?F, OF pres u] obtain slice where
    sl: "find ?P sls = Some slice" and sl': "find ?P sls' = Some (fst (?F slice))"
    and r: "snd (?F slice) = None"
    by auto
  have ui: "?U slice = (fst (?U slice), None)" using r F(2) [of slice] by (cases "?U slice") simp
  have presi: "?Q x \<Longrightarrow> ?Q (fst (place_subSlice cfg rs a x))" for x by simp
  from find_update_first_same [of ?Q "place_subSlice cfg rs a", OF presi ui] obtain ss where
    "find ?Q (subSlices slice) = Some ss"
    "find ?Q (fst (?U slice)) = Some (fst (place_subSlice cfg rs a ss))"
    "snd (place_subSlice cfg rs a ss) = None"
    by auto
  then show ?thesis using sl sl' by (simp add: locate_def F)
qed

lemma arc_step_locate_other:
  assumes "arc_step cfg rs sls (d, a) = (sls', r)"
    and "(cat_sliceId d', cat_id d') \<noteq> (cat_sliceId d, cat_id d)"
  shows "locate sls' d' = locate sls d'"
proof -
  let ?P = "\<lambda>slice. cat_sliceId d = slice_id slice"
  let ?Q = "\<lambda>subSlice. ss_id subSlice = cat_id d"
  let ?P' = "\<lambda>slice. cat_sliceId d' = slice_id slice"
  let ?Q' = "\<lambda>subSlice. ss_id subSlice = cat_id d'"
  let ?U = "\<lambda>slice. update_first ?Q (place_subSlice cfg rs a) (subSlices slice)"
  let ?F = "\<lambda>slice. case ?U slice of (sss, r) \<Rightarrow> (slice\<lparr>subSlices := sss\<rparr>, r)"
  have F: "fst (?F slice) = slice\<lparr>subSlices := fst (?U slice)\<rparr>" "snd (?F slice) = snd (?U slice)" for slice
    by (cases "?U slice"; simp)+
  from assms(1) have u: "update_first ?P ?F sls = (sls', r)" by (simp add: arc_step_def)
  show ?thesis
  proof (cases "cat_sliceId d' = cat_sliceId d")
    case False
    have "find ?P' sls' = find ?P' sls"
      by (rule find_update_first_other [of ?P ?P' ?F, OF _ u]) (use False in \<open>simp add: F\<close>)
    then show ?thesis by (simp add: locate_def)
  next
    case True
    with assms(2) have ne: "cat_id d' \<noteq> cat_id d" by simp
    have pres: "?P x \<Longrightarrow> ?P (fst (?F x))" for x by (simp add: F)
    from find_update_first_same [of ?P ?F, OF pres u]
    consider "find ?P sls = None" "r = Some TypeError"
      | slice where "find ?P sls = Some slice" "find ?P sls' = Some (fst (?F slice))"
      by auto
    then show ?thesis
    proof cases
      case 1
      have "fst (update_first ?P ?F sls) = sls" using 1(1)
      proof (induction sls)
        case Nil
        then show ?case by simp
      next
        case (Cons x xs)
        then show ?case by (cases "update_first ?P ?F xs") (auto split: if_splits)
      qed
      then have "sls' = sls" using u by simp
      then show ?thesis by simp
    next
      case 2
      have "find ?Q' (fst (?U slice)) = find ?Q' (subSlices slice)"
        by (rule find_update_first_other [of ?Q ?Q' "place_subSlice cfg rs a" "subSlices slice" _ "snd (?U slice)"])
           (use ne in auto)
      then show ?thesis using 2 True by (simp add: locate_def F)
    qed
  qed
qed



lemma foldM_locate_other:
  "foldM (arc_step cfg rs) sls das = (sls', r) \<Longrightarrow>
   \<forall>da\<in>set das. (cat_sliceId (fst da), cat_id (fst da)) \<noteq> (cat_sliceId d', cat_id d') \<Longrightarrow>
   locate sls' d' = locate sls d'"
proof (induction das arbitrary: sls)
  case Nil
  then show ?case by simp
next
  case (Cons da das)
  obtain d a where da: "da = (d, a)" by (cases da)
  obtain s1 r1 where st: "arc_step cfg rs sls (d, a) = (s1, r1)"
    by (cases "arc_step cfg rs sls (d, a)")
  have ne: "(cat_sliceId d', cat_id d') \<noteq> (cat_sliceId d, cat_id d)"
    using Cons.prems(2) da by auto
  have l1: "locate s1 d' = locate sls d'"
    using arc_step_locate_other [OF st ne] .
  show ?case
  proof (cases r1)
    case None
    with Cons.prems(1) da st have "foldM (arc_step cfg rs) s1 das = (sls', r)" by simp
    from Cons.IH [OF this] Cons.prems(2) l1 show ?thesis by simp
  next
    case (Some e)
    with Cons.prems(1) da st have "sls' = s1" by simp
    then show ?thesis using l1 by simp
  qed
qed

lemma foldM_locate_placed:
  "foldM (arc_step cfg rs) sls das = (sls', None) \<Longrightarrow>
   distinct (map (\<lambda>da. (cat_sliceId (fst da), cat_id (fst da))) das) \<Longrightarrow>
   i < length das \<Longrightarrow>
   \<exists>ss. locate sls' (fst (das ! i)) = Some ss \<and> placed cfg rs (snd (das ! i)) ss"
proof (induction das arbitrary: sls i)
  case Nil
  then show ?case by simp
next
  case (Cons da das)
  obtain d a where da: "da = (d, a)" by (cases da)
  obtain s1 r1 where st: "arc_step cfg rs sls (d, a) = (s1, r1)"
    by (cases "arc_step cfg rs sls (d, a)")
  have r1: "r1 = None" using Cons.prems(1) da st by (cases r1) simp_all
  have rest: "foldM (arc_step cfg rs) s1 das = (sls', None)"
    using Cons.prems(1) da st r1 by simp
  show ?case
  proof (cases i)
    case 0
    from arc_step_locate_same [OF st [unfolded r1]] obtain ss where
      "locate s1 d = Some (fst (place_subSlice cfg rs a ss))"
      "snd (place_subSlice cfg rs a ss) = None"
      by blast
    moreover have "locate sls' d = locate s1 d"
      by (rule foldM_locate_other [OF rest]) (use Cons.prems(2) da in \<open>auto simp: image_iff\<close>)
    ultimately show ?thesis using 0 da place_subSlice_placed by auto
  next
    case (Suc j)
    then show ?thesis using Cons.IH [OF rest, of j] Cons.prems(2,3) by simp
  qed
qed

lemma locate_cong:
  "map (\<lambda>slice. (slice_id slice, subSlices slice)) sls'
     = map (\<lambda>slice. (slice_id slice, subSlices slice)) sls \<Longrightarrow>
   locate sls' d = locate sls d"
proof (induction sls arbitrary: sls')
  case Nil
  then show ?case by simp
next
  case (Cons x xs)
  then obtain y ys where sls': "sls' = y # ys" by (cases sls') auto
  with Cons.prems have h: "slice_id y = slice_id x" "subSlices y = subSlices x"
    "map (\<lambda>slice. (slice_id slice, subSlices slice)) ys
       = map (\<lambda>slice. (slice_id slice, subSlices slice)) xs"
    by simp_all
  from Cons.IH [OF h(3)] have "locate ys d = locate xs d" .
  then show ?case using h(1,2) by (simp add: sls' locate_def)
qed

lemma slice_step_keeps:
  "slice_step cfg slice = Inr slice' \<Longrightarrow>
   (slice_id slice', subSlices slice') = (slice_id slice, subSlices slice)"
  by (auto simp: slice_step_def split: list.splits option.splits sum.splits)

lemma slice_pass_locate:
  "locate (fst (forEach (atomic (slice_step cfg)) sls)) d = locate sls d"
  by (rule locate_cong, rule forEach_erase, rule atomic_erase, rule slice_step_keeps)

lemma length_pie_arcs [simp]: "length (pie_arcs k p a0 vs) = length vs"
  by (induction vs arbitrary: a0) (simp_all add: Let_def)

lemma length_subSlice_arcs [simp]: "length (subSlice_arcs sp cfg flat) = length flat"
  by (simp add: subSlice_arcs_def d3_pie_def Let_def)

lemma RadarPie_layout_success:
  assumes "snd (RadarPie_layout sp cfg c) = None"
  shows "list_all (\<lambda>slice. slice_step cfg slice = Inr slice) (slices (fst (RadarPie_layout sp cfg c)))
       \<and> (distinct (map (\<lambda>d. (cat_sliceId d, cat_id d)) (flat_subSlices c)) \<longrightarrow>
            (\<forall>i<length (flat_subSlices c).
               \<exists>ss. locate (slices (fst (RadarPie_layout sp cfg c))) (flat_subSlices c ! i) = Some ss
                  \<and> placed cfg (layout_rings sp cfg (rings c))
                       (subSlice_arcs sp cfg (flat_subSlices c) ! i) ss))"
proof -
  let ?rs = "layout_rings sp cfg (rings c)"
  let ?das = "zip (flat_subSlices c) (subSlice_arcs sp cfg (flat_subSlices c))"
  obtain sls r where F: "foldM (arc_step cfg ?rs) (slices c) ?das = (sls, r)"
    by (cases "foldM (arc_step cfg ?rs) (slices c) ?das")
  obtain sls' r' where S: "forEach (atomic (slice_step cfg)) sls = (sls', r')"
    by (cases "forEach (atomic (slice_step cfg)) sls")
  have r: "r = None" using assms F by (cases r) (simp_all add: RadarPie_layout_def Let_def)
  have r': "r' = None" using assms F S r by (simp add: RadarPie_layout_def Let_def)
  have res: "slices (fst (RadarPie_layout sp cfg c)) = sls'"
    using F S r by (simp add: RadarPie_layout_def Let_def)
  have fixed: "list_all (\<lambda>slice. slice_step cfg slice = Inr slice) sls'"
    by (rule forEach_atomic_fix [where f = "slice_step cfg" and xs = sls])
       (use S r' slice_step_idem in simp_all)
  have loc: "locate sls' d = locate sls d" for d
    using slice_pass_locate [of cfg sls d] S by simp
  have pl: "\<exists>ss. locate sls' (flat_subSlices c ! i) = Some ss
                \<and> placed cfg ?rs (subSlice_arcs sp cfg (flat_subSlices c) ! i) ss"
    if d: "distinct (map (\<lambda>d. (cat_sliceId d, cat_id d)) (flat_subSlices c))"
      and i: "i < length (flat_subSlices c)" for i
  proof -
    have "map (\<lambda>da. (cat_sliceId (fst da), cat_id (fst da))) ?das
        = map (\<lambda>d. (cat_sliceId d, cat_id d)) (flat_subSlices c)"
      by (rule nth_equalityI) simp_all
    then have dd: "distinct (map (\<lambda>da. (cat_sliceId (fst da), cat_id (fst da))) ?das)"
      using d by simp
    have il: "i < length ?das" using i by simp
    from foldM_locate_placed [OF F [unfolded r] dd il] show ?thesis
      using i by (simp add: loc)
  qed
  show ?thesis using fixed pl by (simp add: res)
qed



lemma segment_at_put_segment:
  assumes "segment_at c p = Some seg"
  shows "segment_at (put_segment c p seg') p = Some seg'"
proof -
  obtain i j k where p: "p = (i, j, k)" by (cases p)
  from assms have "i < length (slices c)"
    by (auto simp: segment_at_def p nth_opt_def split: if_splits)
  moreover from assms this have "j < length (subSlices (slices c ! i))"
    by (auto simp: segment_at_def p nth_opt_def split: if_splits)
  moreover from assms calculation have "k < length (segments (subSlices (slices c ! i) ! j))"
    by (auto simp: segment_at_def p nth_opt_def split: if_splits)
  ultimately show ?thesis
    by (simp add: segment_at_def put_segment_def p nth_opt_def)
qed

lemma segment_after_single:
  assumes "seg_items seg = [it]" and "seg_ringLevel seg < length rs"
    and "seg_arcParams seg = Some ap"
  shows "segment_after g seg rs = seg\<lparr>seg_items :=
           [it\<lparr>item_x := Some (fst (arcGenerator_centroid g ap)),
               item_y := Some (snd (arcGenerator_centroid g ap))\<rparr>]\<rparr>"
  using assms by (simp add: segment_after_def RadarSegment_constructor_def nth_opt_def Let_def)

lemma getElement_RadarSegment_store:
  assumes "st (radarContent pie) = Some c" and "segment_at c p = Some seg"
  shows "fst (getElement_RadarSegment g st pie p) (radarContent pie)
           = Some (put_segment c p (segment_after g seg (rings c)))"
  using assms by (simp add: getElement_RadarSegment_def)

lemma RadarPie_constructor_store:
  assumes "st a = Some c"
  shows "fst (RadarPie_constructor sp st a cfg) a = Some (fst (RadarPie_layout sp cfg c))"
  using assms
  by (cases "RadarPie_layout sp cfg c"; cases "snd (RadarPie_layout sp cfg c)")
     (simp_all add: RadarPie_constructor_def)

lemma RadarPie_constructor_result:
  assumes "st a = Some c"
  shows "snd (RadarPie_constructor sp st a cfg)
           = (case snd (RadarPie_layout sp cfg c) of
                Some e \<Rightarrow> Inl e
              | None \<Rightarrow> Inr \<lparr>radarContent = a, config = cfg\<rparr>)"
  using assms
  by (cases "RadarPie_layout sp cfg c"; cases "snd (RadarPie_layout sp cfg c)")
     (simp_all add: RadarPie_constructor_def)

text \<open>
  Claim C5, amended. The constructor works on the caller's tree and not on a copy.
  Let the store hold the content tree \<open>c\<close> at the reference \<open>a\<close> the caller passes.
  After the constructor, whether it has returned or thrown, the store holds at \<open>a\<close>
  a tree whose rings are those of the ring pass and which, with the computed
  annotations erased, is the caller's tree: ids, labels, item counts, ring ids and
  levels, the items with their positions, and the membership and order of rings,
  slices, sub-slices and segments are unchanged. When the constructor returns,
  \<^verbatim>\<open>radarContent\<close> of the new object is the reference \<open>a\<close>; every slice carries the
  label data the slice pass computes from its sub-slices; and, when the pairs of
  \<^verbatim>\<open>sliceId\<close> and \<^verbatim>\<open>id\<close> of the flat list are distinct, the sub-slice located for each
  datum carries the datum's arc, the label data of that arc, and in every segment
  the arc parameters computed from that arc and the rings. The layout is written
  to again after it has been computed: building the \<^verbatim>\<open>RadarSegment\<close> of a segment
  of that tree, as \<^verbatim>\<open>getElement\<close> does, puts into the same tree, at the segment's
  place, the segment with its items positioned, and a segment with a single item
  gets the centroid of its arc as the item's position.
\<close>

theorem C5_annotated_in_place:
  assumes "st a = Some c"
  shows "\<exists>c'. fst (RadarPie_constructor sp st a cfg) a = Some c'
            \<and> rings c' = layout_rings sp cfg (rings c)
            \<and> erase_content c' = erase_content c
            \<and> (\<forall>pie. snd (RadarPie_constructor sp st a cfg) = Inr pie \<longrightarrow>
                  radarContent pie = a
                \<and> list_all (\<lambda>slice. slice_step cfg slice = Inr slice) (slices c')
                \<and> (distinct (map (\<lambda>d. (cat_sliceId d, cat_id d)) (flat_subSlices c)) \<longrightarrow>
                     (\<forall>i<length (flat_subSlices c).
                        \<exists>ss. locate (slices c') (flat_subSlices c ! i) = Some ss
                           \<and> placed cfg (rings c') (subSlice_arcs sp cfg (flat_subSlices c) ! i) ss))
                \<and> (\<forall>p seg. segment_at c' p = Some seg \<longrightarrow>
                       fst (getElement_RadarSegment g (fst (RadarPie_constructor sp st a cfg)) pie p) a
                         = Some (put_segment c' p (segment_after g seg (rings c')))
                     \<and> segment_at (put_segment c' p (segment_after g seg (rings c'))) p
                         = Some (segment_after g seg (rings c'))
                     \<and> (\<forall>it ap. seg_items seg = [it] \<and> seg_ringLevel seg < length (rings c')
                                  \<and> seg_arcParams seg = Some ap \<longrightarrow>
                           seg_items (segment_after g seg (rings c')) =
                             [it\<lparr>item_x := Some (fst (arcGenerator_centroid g ap)),
                                 item_y := Some (snd (arcGenerator_centroid g ap))\<rparr>])))"
proof -
  let ?R = "RadarPie_constructor sp st a cfg"
  define c1 where "c1 = fst (RadarPie_layout sp cfg c)"
  have R1: "fst ?R a = Some c1"
    using RadarPie_constructor_store [of st a c sp cfg] assms by (simp add: c1_def)
  have fr: "rings c1 = layout_rings sp cfg (rings c)" "erase_content c1 = erase_content c"
    using RadarPie_layout_frame [of sp cfg c] by (simp_all add: c1_def)
  have all: "\<forall>pie. snd ?R = Inr pie \<longrightarrow>
                  radarContent pie = a
                \<and> list_all (\<lambda>slice. slice_step cfg slice = Inr slice) (slices c1)
                \<and> (distinct (map (\<lambda>d. (cat_sliceId d, cat_id d)) (flat_subSlices c)) \<longrightarrow>
                     (\<forall>i<length (flat_subSlices c).
                        \<exists>ss. locate (slices c1) (flat_subSlices c ! i) = Some ss
                           \<and> placed cfg (rings c1) (subSlice_arcs sp cfg (flat_subSlices c) ! i) ss))
                \<and> (\<forall>p seg. segment_at c1 p = Some seg \<longrightarrow>
                       fst (getElement_RadarSegment g (fst ?R) pie p) a
                         = Some (put_segment c1 p (segment_after g seg (rings c1)))
                     \<and> segment_at (put_segment c1 p (segment_after g seg (rings c1))) p
                         = Some (segment_after g seg (rings c1))
                     \<and> (\<forall>it ap. seg_items seg = [it] \<and> seg_ringLevel seg < length (rings c1)
                                  \<and> seg_arcParams seg = Some ap \<longrightarrow>
                           seg_items (segment_after g seg (rings c1)) =
                             [it\<lparr>item_x := Some (fst (arcGenerator_centroid g ap)),
                                 item_y := Some (snd (arcGenerator_centroid g ap))\<rparr>]))"
  proof (intro allI impI)
    fix pie :: RadarPie
    assume s: "snd ?R = Inr pie"
    have n: "snd (RadarPie_layout sp cfg c) = None"
      using s RadarPie_constructor_result [of st a c sp cfg] assms
      by (cases "snd (RadarPie_layout sp cfg c)") simp_all
    then have pie: "pie = \<lparr>radarContent = a, config = cfg\<rparr>"
      using s RadarPie_constructor_result [of st a c sp cfg] assms by simp
    have a: "radarContent pie = a" by (simp add: pie)
    have lay: "list_all (\<lambda>slice. slice_step cfg slice = Inr slice) (slices c1)
      \<and> (distinct (map (\<lambda>d. (cat_sliceId d, cat_id d)) (flat_subSlices c)) \<longrightarrow>
           (\<forall>i<length (flat_subSlices c).
              \<exists>ss. locate (slices c1) (flat_subSlices c ! i) = Some ss
                 \<and> placed cfg (rings c1) (subSlice_arcs sp cfg (flat_subSlices c) ! i) ss))"
      using RadarPie_layout_success [OF n] unfolding c1_def [symmetric] fr(1) .
    have seg: "fst (getElement_RadarSegment g (fst ?R) pie p) a
                 = Some (put_segment c1 p (segment_after g seg (rings c1)))
             \<and> segment_at (put_segment c1 p (segment_after g seg (rings c1))) p
                 = Some (segment_after g seg (rings c1))
             \<and> (\<forall>it ap. seg_items seg = [it] \<and> seg_ringLevel seg < length (rings c1)
                          \<and> seg_arcParams seg = Some ap \<longrightarrow>
                   seg_items (segment_after g seg (rings c1)) =
                     [it\<lparr>item_x := Some (fst (arcGenerator_centroid g ap)),
                         item_y := Some (snd (arcGenerator_centroid g ap))\<rparr>])"
      if h: "segment_at c1 p = Some seg" for p and seg :: Segment
    proof (intro conjI allI impI)
      show "fst (getElement_RadarSegment g (fst ?R) pie p) a
              = Some (put_segment c1 p (segment_after g seg (rings c1)))"
        using getElement_RadarSegment_store [of "fst ?R" pie c1 p seg g] R1 h a by simp
      show "segment_at (put_segment c1 p (segment_after g seg (rings c1))) p
              = Some (segment_after g seg (rings c1))"
        using h by (rule segment_at_put_segment)
    next
      fix it :: RadarItem and ap :: ArcObject
      assume "seg_items seg = [it] \<and> seg_ringLevel seg < length (rings c1)
                \<and> seg_arcParams seg = Some ap"
      then show "seg_items (segment_after g seg (rings c1)) =
                     [it\<lparr>item_x := Some (fst (arcGenerator_centroid g ap)),
                         item_y := Some (snd (arcGenerator_centroid g ap))\<rparr>]"
        by (simp add: segment_after_single)
    qed
    from a lay seg
    show "radarContent pie = a
                \<and> list_all (\<lambda>slice. slice_step cfg slice = Inr slice) (slices c1)
                \<and> (distinct (map (\<lambda>d. (cat_sliceId d, cat_id d)) (flat_subSlices c)) \<longrightarrow>
                     (\<forall>i<length (flat_subSlices c).
                        \<exists>ss. locate (slices c1) (flat_subSlices c ! i) = Some ss
                           \<and> placed cfg (rings c1) (subSlice_arcs sp cfg (flat_subSlices c) ! i) ss))
                \<and> (\<forall>p seg. segment_at c1 p = Some seg \<longrightarrow>
                       fst (getElement_RadarSegment g (fst ?R) pie p) a
                         = Some (put_segment c1 p (segment_after g seg (rings c1)))
                     \<and> segment_at (put_segment c1 p (segment_after g seg (rings c1))) p
                         = Some (segment_after g seg (rings c1))
                     \<and> (\<forall>it ap. seg_items seg = [it] \<and> seg_ringLevel seg < length (rings c1)
                                  \<and> seg_arcParams seg = Some ap \<longrightarrow>
                           seg_items (segment_after g seg (rings c1)) =
                             [it\<lparr>item_x := Some (fst (arcGenerator_centroid g ap)),
                                 item_y := Some (snd (arcGenerator_centroid g ap))\<rparr>]))"
      by (intro conjI allI impI) (assumption | (drule conjunct1, assumption) | (drule conjunct2, assumption) | blast)+
  qed
  show ?thesis
    by (rule exI [of _ c1]) (intro conjI R1 fr all)
qed

lemma upt2: "[0..<2] = [0, 1]" by (simp add: upt_rec)

lemma rings2_scaled:
  "scaleProportional (ring_weights rings2) (availableRadius DEFAULT_RADAR_PIE_CONFIG (length rings2))
     (minRingRadius DEFAULT_RADAR_PIE_CONFIG) = map Fin [220, 30]"
proof -
  have "ring_weights rings2 = map Fin [12 * pi, pi]"
    by (simp add: ring_weights_def rings2_def upt2)
  moreover have "scaleProportional_real [12 * pi, pi] 250 30 = [220, 30]"
    by (simp add: scaleProportional_real_def scale_iter.simps clamp_pass_def share_def
          pool_weight_def clamped_count_def)
  moreover have "availableRadius DEFAULT_RADAR_PIE_CONFIG (length rings2) = Fin 250"
    by (simp add: availableRadius_def DEFAULT_RADAR_PIE_CONFIG_def rings2_def)
  moreover have "minRingRadius DEFAULT_RADAR_PIE_CONFIG = Fin 30"
    by (simp add: DEFAULT_RADAR_PIE_CONFIG_def)
  ultimately show ?thesis
    by (simp only: scaleProportional_Fin)
qed

lemma rings2_layout:
  "layout_rings scaleProportional DEFAULT_RADAR_PIE_CONFIG rings2 = rings2_built"
proof (rule nth_equalityI)
  show "length (layout_rings scaleProportional DEFAULT_RADAR_PIE_CONFIG rings2) = length rings2_built"
    by (simp add: rings2_def rings2_built_def)
next
  fix i assume "i < length (layout_rings scaleProportional DEFAULT_RADAR_PIE_CONFIG rings2)"
  then have "i = 0 \<or> i = 1" by (auto simp: rings2_def)
  then show "layout_rings scaleProportional DEFAULT_RADAR_PIE_CONFIG rings2 ! i = rings2_built ! i"
  proof
    assume i: "i = 0"
    show ?thesis
      using layout_rings_nth [of 0 rings2 scaleProportional DEFAULT_RADAR_PIE_CONFIG]
      unfolding i rings2_scaled
      by (simp add: rings2_def rings2_built_def DEFAULT_RADAR_PIE_CONFIG_def ring_sum_arg_def
            d3_sum_def nth_opt_def upt2)
  next
    assume i: "i = 1"
    show ?thesis
      using layout_rings_nth [of 1 rings2 scaleProportional DEFAULT_RADAR_PIE_CONFIG]
      unfolding i rings2_scaled
      by (simp add: rings2_def rings2_built_def DEFAULT_RADAR_PIE_CONFIG_def ring_sum_arg_def
            d3_sum_def nth_opt_def upt2)
  qed
qed


lemma subSlice_labelData_full:
  "subSlice_labelData DEFAULT_RADAR_PIE_CONFIG full_arc =
     Inr \<lparr>lbl_x = Fin 0, lbl_y = Fin 260, bBoxPadding = Fin 2,
          labelPlacement = \<lparr>hAnchor = H_middle, vAnchor = V_hanging\<rparr>\<rparr>"
proof -
  have "calculateAnchorPlacement (Fin 0) (Some (Fin (2 * pi)))
      = calculateAnchorPlacement (degToRad (Fin 180)) None"
    by (simp add: calculateAnchorPlacement_def anchor_rads_def degToRad_Fin)
  then have "calculateAnchorPlacement (Fin 0) (Some (Fin (2 * pi)))
      = Inr \<lparr>hAnchor = H_middle, vAnchor = V_hanging\<rparr>"
    by (simp add: calculateAnchorPlacement_deg)
  then show ?thesis
    by (simp add: subSlice_labelData_def full_arc_def DEFAULT_RADAR_PIE_CONFIG_def)
qed

lemma slice_labelData_full:
  "slice_labelData_of DEFAULT_RADAR_PIE_CONFIG full_arc full_arc =
     Inr \<lparr>lbl_x = Fin 0, lbl_y = Fin 310, bBoxPadding = Fin 4,
          labelPlacement = \<lparr>hAnchor = H_middle, vAnchor = V_hanging\<rparr>,
          midAngle = Fin pi,
          dividerLine = \<lparr>x1 = Fin 0, y1 = Fin 0, x2 = Fin 0, y2 = Fin (- 250)\<rparr>\<rparr>"
proof -
  have m: "startAngle full_arc + (endAngle full_arc - startAngle full_arc) / Fin 2 = Fin pi"
    by (simp add: full_arc_def)
  have "calculateAnchorPlacement (Fin pi) None = calculateAnchorPlacement (degToRad (Fin 180)) None"
    by (simp add: degToRad_Fin)
  then have p: "calculateAnchorPlacement (Fin pi) None = Inr \<lparr>hAnchor = H_middle, vAnchor = V_hanging\<rparr>"
    by (simp add: calculateAnchorPlacement_deg)
  have h: "Fin pi - Fin pi / Fin 2 = Fin (pi / 2)" "Fin 0 - Fin pi / Fin 2 = Fin (- (pi / 2))"
    by simp_all
  show ?thesis
    unfolding slice_labelData_of_def Let_def m p
    by (simp add: h) (simp add: full_arc_def DEFAULT_RADAR_PIE_CONFIG_def)
qed

lemma example_layout:
  "RadarPie_layout scaleProportional DEFAULT_RADAR_PIE_CONFIG example_content = (built_content, None)"
proof -
  let ?cfg = DEFAULT_RADAR_PIE_CONFIG
  have f: "find (\<lambda>r. ring_id r = seg_ringId hold_segment) rings2_built = Some (rings2_built ! 1)"
    by (simp add: hold_segment_def rings2_built_def)
  have seg: "segment_arcParams rings2_built full_arc hold_segment = Inr built_segment"
    using segment_arcParams_found [of hold_segment rings2_built "rings2_built ! 1" full_arc] f
    by (simp add: hold_segment_def built_segment_def) (simp add: rings2_built_def full_arc_def)
  have place: "place_subSlice ?cfg rings2_built full_arc tools_subSlice = (built_subSlice, None)"
    by (simp add: place_subSlice_def subSlice_labelData_full) 
       (simp add: tools_subSlice_def seg atomic_def built_subSlice_def)
  let ?sl = "\<lparr>slice_id = ''s'', slice_label = ''S'', slice_labelData = None,
              subSlices = [built_subSlice]\<rparr>"
  have step: "arc_step ?cfg rings2_built (slices example_content) (hd one_flat, full_arc)
      = ([?sl], None)"
    using place by (simp add: arc_step_def example_content_def one_flat_def)
       (simp add: tools_subSlice_def)
  have z: "zip (flat_subSlices example_content)
               (subSlice_arcs scaleProportional ?cfg (flat_subSlices example_content))
        = [(hd one_flat, full_arc)]"
    by (simp add: example_content_def one_flat_arcs full_arc_def) (simp add: one_flat_def)
  have fold: "foldM (arc_step ?cfg rings2_built) (slices example_content)
        (zip (flat_subSlices example_content)
             (subSlice_arcs scaleProportional ?cfg (flat_subSlices example_content)))
      = ([?sl], None)"
    unfolding z using step by simp
  have sl: "slice_step ?cfg ?sl = Inr (hd (slices built_content))"
    by (simp add: slice_step_def built_subSlice_def slice_labelData_full built_content_def)
  have r: "layout_rings scaleProportional ?cfg (rings example_content) = rings2_built"
    by (simp add: example_content_def rings2_layout)
  show ?thesis
    unfolding RadarPie_layout_def
    by (simp only: Let_def r fold prod.case option.case forEach.simps atomic_def sl sum.case)
       (simp add: example_content_def built_content_def)
qed

lemma example_drawn:
  "segment_after example_geometry built_segment rings2_built = drawn_segment"
proof -
  have "segment_after example_geometry built_segment rings2_built
      = built_segment\<lparr>seg_items :=
           [\<lparr>item_groupId = ''g'', item_x = None, item_y = None\<rparr>
              \<lparr>item_x := Some (fst (arcGenerator_centroid example_geometry
                  \<lparr>startAngle = Fin 0, endAngle = Fin (2 * pi), padAngle = Fin (pi / 900),
                   arc_innerRadius = Fin 220, arc_outerRadius = Fin 250\<rparr>)),
               item_y := Some (snd (arcGenerator_centroid example_geometry
                  \<lparr>startAngle = Fin 0, endAngle = Fin (2 * pi), padAngle = Fin (pi / 900),
                   arc_innerRadius = Fin 220, arc_outerRadius = Fin 250\<rparr>))\<rparr>]\<rparr>"
    by (rule segment_after_single)
       (simp_all add: built_segment_def hold_segment_def rings2_built_def)
  moreover have "Fin pi - Fin pi / Fin 2 = Fin (pi / 2)" by simp
  ultimately show ?thesis
    by (simp add: drawn_segment_def example_geometry_def)
qed


lemma example_constructor:
  "RadarPie_constructor scaleProportional example_store 7 DEFAULT_RADAR_PIE_CONFIG
     = (example_store(7 \<mapsto> built_content), Inr example_pie)"
  by (simp add: RadarPie_constructor_def example_store_def example_layout example_pie_def)

lemma built_segment_at: "segment_at built_content (0, 0, 0) = Some built_segment"
  by (simp add: segment_at_def built_content_def built_subSlice_def nth_opt_def)

lemma built_put: "put_segment built_content (0, 0, 0) drawn_segment = drawn_content"
  by (simp add: put_segment_def drawn_content_def built_content_def built_subSlice_def)

text \<open>
  The example tree at reference 7 under the default configuration: the constructor
  returns, the tree at 7 is the annotated one, and the item of its segment is
  positioned at (0, 235).
\<close>

theorem C5_annotated_in_place_witness:
  "example_store 7 = Some example_content
   \<and> snd (RadarPie_constructor scaleProportional example_store 7 DEFAULT_RADAR_PIE_CONFIG)
       = Inr example_pie
   \<and> fst (RadarPie_constructor scaleProportional example_store 7 DEFAULT_RADAR_PIE_CONFIG) 7
       = Some built_content
   \<and> rings built_content = layout_rings scaleProportional DEFAULT_RADAR_PIE_CONFIG (rings example_content)
   \<and> erase_content built_content = erase_content example_content
   \<and> radarContent example_pie = 7
   \<and> list_all (\<lambda>slice. slice_step DEFAULT_RADAR_PIE_CONFIG slice = Inr slice) (slices built_content)
   \<and> distinct (map (\<lambda>d. (cat_sliceId d, cat_id d)) (flat_subSlices example_content))
   \<and> locate (slices built_content) (flat_subSlices example_content ! 0) = Some built_subSlice
   \<and> placed DEFAULT_RADAR_PIE_CONFIG (rings built_content)
        (subSlice_arcs scaleProportional DEFAULT_RADAR_PIE_CONFIG (flat_subSlices example_content) ! 0)
        built_subSlice
   \<and> segment_at built_content (0, 0, 0) = Some built_segment
   \<and> fst (getElement_RadarSegment example_geometry
            (fst (RadarPie_constructor scaleProportional example_store 7 DEFAULT_RADAR_PIE_CONFIG))
            example_pie (0, 0, 0)) 7
       = Some drawn_content
   \<and> segment_at drawn_content (0, 0, 0) = Some drawn_segment
   \<and> seg_items drawn_segment
       = [\<lparr>item_groupId = ''g'', item_x = Some (Fin 0), item_y = Some (Fin 235)\<rparr>]"
proof -
  let ?R = "RadarPie_constructor scaleProportional example_store 7 DEFAULT_RADAR_PIE_CONFIG"
  have st: "example_store 7 = Some example_content" by (simp add: example_store_def)
  have s: "snd ?R = Inr example_pie" and f: "fst ?R 7 = Some built_content"
    by (simp_all add: example_constructor)
  have d: "distinct (map (\<lambda>d. (cat_sliceId d, cat_id d)) (flat_subSlices example_content))"
    and l: "0 < length (flat_subSlices example_content)"
    by (simp_all add: example_content_def one_flat_def)
  have r: "rings built_content = rings2_built" by (simp add: built_content_def)
  from C5_annotated_in_place [of example_store 7 example_content scaleProportional
         DEFAULT_RADAR_PIE_CONFIG example_geometry] st
  obtain c' where c': "fst ?R 7 = Some c'"
    and fr: "rings c' = layout_rings scaleProportional DEFAULT_RADAR_PIE_CONFIG (rings example_content)"
            "erase_content c' = erase_content example_content"
    and ok: "\<forall>pie. snd ?R = Inr pie \<longrightarrow>
                  radarContent pie = 7
                \<and> list_all (\<lambda>slice. slice_step DEFAULT_RADAR_PIE_CONFIG slice = Inr slice) (slices c')
                \<and> (distinct (map (\<lambda>d. (cat_sliceId d, cat_id d)) (flat_subSlices example_content)) \<longrightarrow>
                     (\<forall>i<length (flat_subSlices example_content).
                        \<exists>ss. locate (slices c') (flat_subSlices example_content ! i) = Some ss
                           \<and> placed DEFAULT_RADAR_PIE_CONFIG (rings c')
                                (subSlice_arcs scaleProportional DEFAULT_RADAR_PIE_CONFIG
                                   (flat_subSlices example_content) ! i) ss))
                \<and> (\<forall>p seg. segment_at c' p = Some seg \<longrightarrow>
                       fst (getElement_RadarSegment example_geometry (fst ?R) pie p) 7
                         = Some (put_segment c' p (segment_after example_geometry seg (rings c')))
                     \<and> segment_at (put_segment c' p (segment_after example_geometry seg (rings c'))) p
                         = Some (segment_after example_geometry seg (rings c'))
                     \<and> (\<forall>it ap. seg_items seg = [it] \<and> seg_ringLevel seg < length (rings c')
                                  \<and> seg_arcParams seg = Some ap \<longrightarrow>
                           seg_items (segment_after example_geometry seg (rings c')) =
                             [it\<lparr>item_x := Some (fst (arcGenerator_centroid example_geometry ap)),
                                 item_y := Some (snd (arcGenerator_centroid example_geometry ap))\<rparr>]))"
    by blast
  have c: "c' = built_content" using c' f by simp
  note ok' = ok [rule_format, OF s, unfolded c]
  have 1: "radarContent example_pie = 7"
    and 2: "list_all (\<lambda>slice. slice_step DEFAULT_RADAR_PIE_CONFIG slice = Inr slice) (slices built_content)"
    using ok' by blast+
  from ok' d l obtain ss where
    ss: "locate (slices built_content) (flat_subSlices example_content ! 0) = Some ss"
    and pl: "placed DEFAULT_RADAR_PIE_CONFIG (rings built_content)
        (subSlice_arcs scaleProportional DEFAULT_RADAR_PIE_CONFIG (flat_subSlices example_content) ! 0) ss"
    by blast
  have "locate (slices built_content) (flat_subSlices example_content ! 0) = Some built_subSlice"
    by (simp add: locate_def built_content_def example_content_def one_flat_def
          built_subSlice_def tools_subSlice_def)
  with ss have ssb: "ss = built_subSlice" by simp
  from ok' built_segment_at
  have g: "fst (getElement_RadarSegment example_geometry (fst ?R) example_pie (0, 0, 0)) 7
             = Some (put_segment built_content (0, 0, 0)
                       (segment_after example_geometry built_segment (rings built_content)))"
    and g2: "segment_at (put_segment built_content (0, 0, 0)
                       (segment_after example_geometry built_segment (rings built_content))) (0, 0, 0)
             = Some (segment_after example_geometry built_segment (rings built_content))"
    by blast+
  let ?it = "\<lparr>item_groupId = ''g'', item_x = None, item_y = None\<rparr>"
  let ?ap = "\<lparr>startAngle = Fin 0, endAngle = Fin (2 * pi), padAngle = Fin (pi / 900),
             arc_innerRadius = Fin 220, arc_outerRadius = Fin 250\<rparr>"
  have single: "seg_items built_segment = [?it]
      \<and> seg_ringLevel built_segment < length (rings built_content)
      \<and> seg_arcParams built_segment = Some ?ap"
    by (simp add: built_segment_def hold_segment_def r rings2_built_def)
  from ok' built_segment_at
  have "\<forall>it ap. seg_items built_segment = [it]
            \<and> seg_ringLevel built_segment < length (rings built_content)
            \<and> seg_arcParams built_segment = Some ap \<longrightarrow>
          seg_items (segment_after example_geometry built_segment (rings built_content)) =
            [it\<lparr>item_x := Some (fst (arcGenerator_centroid example_geometry ap)),
                item_y := Some (snd (arcGenerator_centroid example_geometry ap))\<rparr>]"
    by blast
  with single
  have "seg_items (segment_after example_geometry built_segment (rings built_content)) =
          [?it\<lparr>item_x := Some (fst (arcGenerator_centroid example_geometry ?ap)),
               item_y := Some (snd (arcGenerator_centroid example_geometry ?ap))\<rparr>]"
    by blast
  moreover have "Fin pi - Fin pi / Fin 2 = Fin (pi / 2)" by simp
  ultimately have dr: "seg_items drawn_segment
       = [\<lparr>item_groupId = ''g'', item_x = Some (Fin 0), item_y = Some (Fin 235)\<rparr>]"
    unfolding r example_drawn by (simp add: example_geometry_def)
  show ?thesis
    using st s f fr [unfolded c] 1 2 d ss [unfolded ssb] pl [unfolded ssb] built_segment_at
      g [unfolded r example_drawn built_put] g2 [unfolded r example_drawn built_put] dr
    by (intro conjI)
qed

text \<open>
  Claim C5 as stated has the caller's structure unchanged after construction, the
  annotations only in a newly built result, and the layout never mutated once
  computed. For the example tree at reference 7 the constructor returns, and the
  store then holds at 7 the annotated tree, which is not the tree passed in;
  building the \<^verbatim>\<open>RadarSegment\<close> of its segment afterwards writes the item position
  (0, 235) into that same tree.
\<close>

theorem C5_input_mutated_counterexample:
  "example_store 7 = Some example_content
   \<and> snd (RadarPie_constructor scaleProportional example_store 7 DEFAULT_RADAR_PIE_CONFIG)
       = Inr example_pie
   \<and> fst (RadarPie_constructor scaleProportional example_store 7 DEFAULT_RADAR_PIE_CONFIG) 7
       = Some built_content
   \<and> built_content \<noteq> example_content
   \<and> fst (getElement_RadarSegment example_geometry
            (fst (RadarPie_constructor scaleProportional example_store 7 DEFAULT_RADAR_PIE_CONFIG))
            example_pie (0, 0, 0)) 7
       = Some drawn_content
   \<and> drawn_content \<noteq> built_content"
proof -
  have "rings built_content \<noteq> rings example_content"
    by (simp add: built_content_def example_content_def rings2_built_def rings2_def)
  then have 1: "built_content \<noteq> example_content" by auto
  have "segment_at drawn_content (0, 0, 0) \<noteq> segment_at built_content (0, 0, 0)"
    by (simp add: segment_at_def drawn_content_def built_content_def built_subSlice_def nth_opt_def
          drawn_segment_def built_segment_def hold_segment_def)
  then have 2: "drawn_content \<noteq> built_content" by auto
  have r: "rings built_content = rings2_built" by (simp add: built_content_def)
  have 3: "fst (getElement_RadarSegment example_geometry
            (fst (RadarPie_constructor scaleProportional example_store 7 DEFAULT_RADAR_PIE_CONFIG))
            example_pie (0, 0, 0)) 7 = Some drawn_content"
    using getElement_RadarSegment_store [of "example_store(7 \<mapsto> built_content)" example_pie
            built_content "(0, 0, 0)" built_segment example_geometry] built_segment_at
    by (simp add: example_constructor example_pie_def r example_drawn built_put)
  show ?thesis
    using 1 2 3 by (simp add: example_constructor) (simp add: example_store_def)
qed

end
